theory Spec2Isabelle
  imports Complex_Main "HOL-Library.Word"
begin

unbundle bit_operations_syntax

section \<open>The colour model of \<^verbatim>\<open>src/browser/Color.ts\<close>\<close>

text \<open>
  The TypeScript source works on JavaScript numbers. The embedding uses three HOL types
  for them, by the role a number plays in the source:
  \<^item> a packed colour (\<^verbatim>\<open>rgba\<close>, and every operand of \<^verbatim>\<open>>>\<close>, \<^verbatim>\<open><<\<close>,
    \<^verbatim>\<open>&\<close>, \<^verbatim>\<open>|\<close>) is a \<open>32 word\<close>: the bit operators of JavaScript work
    on the 32-bit pattern of their operand, \<^verbatim>\<open>>>\<close> is the sign-propagating shift
    (\<open>signed_drop_bit\<close>) and \<^verbatim>\<open>>>> 0\<close> reads the pattern as unsigned;
  \<^item> a channel value (the result of \<^verbatim>\<open>& 0xFF\<close>, \<^verbatim>\<open>Math.round\<close>,
    \<^verbatim>\<open>Math.ceil\<close>, \<^verbatim>\<open>Math.floor\<close>) is an \<open>int\<close>;
  \<^item> a luminance, a contrast ratio and the blend factor are \<open>real\<close>: the arithmetic
    of IEEE doubles is idealised to exact real arithmetic, \<^verbatim>\<open>Math.pow\<close> is
    \<open>powr\<close>, and there is no NaN and no infinity.
\<close>

record IColor =
  css :: string
  rgba :: "32 word"

text \<open>The expression \<^verbatim>\<open>(w >> n) & 0xFF\<close>, which the source writes out at every use.\<close>

definition byteAt :: "32 word \<Rightarrow> nat \<Rightarrow> int" where
  "byteAt w n = uint (signed_drop_bit n w AND 0xFF)"

subsection \<open>Representation\<close>

text \<open>
  \<^verbatim>\<open>Number.prototype.toString(16)\<close> on an integer: the digits of the absolute value,
  most significant first, after a minus sign for a negative number.
\<close>

definition hexDigit :: "nat \<Rightarrow> char" where
  "hexDigit d = ''0123456789abcdef'' ! d"

fun toHex :: "nat \<Rightarrow> string" where
  "toHex n = (if n < 16 then [hexDigit n] else toHex (n div 16) @ [hexDigit (n mod 16)])"

declare toHex.simps [simp del]

definition toString16 :: "int \<Rightarrow> string" where
  "toString16 c = (if c < 0 then CHR ''-'' # toHex (nat (- c)) else toHex (nat c))"

definition toPaddedHex :: "int \<Rightarrow> string" where
  "toPaddedHex c = (let s = toString16 c in if length s < 2 then CHR ''0'' # s else s)"

definition toCss :: "int \<Rightarrow> int \<Rightarrow> int \<Rightarrow> string" where
  "toCss r g b = CHR ''#'' # toPaddedHex r @ toPaddedHex g @ toPaddedHex b"

text \<open>
  \<^verbatim>\<open>(r << 24 | g << 16 | b << 8 | a) >>> 0\<close>. The operands are integers; \<^verbatim>\<open><<\<close>
  takes each modulo \<open>2 ^ 32\<close> (\<open>word_of_int\<close>) and shifts within 32 bits. The default
  \<^verbatim>\<open>a = 0xFF\<close> is passed by every caller in this file.
\<close>

definition toRgba :: "int \<Rightarrow> int \<Rightarrow> int \<Rightarrow> int \<Rightarrow> 32 word" where
  "toRgba r g b a =
     push_bit 24 (word_of_int r) OR push_bit 16 (word_of_int g)
       OR push_bit 8 (word_of_int b) OR word_of_int a"

text \<open>
  \<^verbatim>\<open>parseInt(s, 16)\<close>: leading white space is skipped, then an optional sign, then
  an optional \<^verbatim>\<open>0x\<close> or \<^verbatim>\<open>0X\<close>; the value is read from the longest prefix of
  hexadecimal digits of what is left, and the result is NaN (\<open>None\<close>) when that prefix
  is empty. A \<open>char\<close> is a code unit below 256, and white space is JavaScript's among
  those (tab, line feed, vertical tab, form feed, carriage return, space, no-break space);
  the value is the exact integer (a double is exact up to \<open>2 ^ 53\<close>, that is thirteen
  digits; beyond that \<^verbatim>\<open>parseInt\<close> rounds and this definition does not).
\<close>

definition isWhiteSpace :: "char \<Rightarrow> bool" where
  "isWhiteSpace c = (of_char c \<in> {9, 10, 11, 12, 13, 32, 160 :: nat})"

definition hexValue :: "char \<Rightarrow> nat option" where
  "hexValue c =
     (let k = (of_char c :: nat) in
      if 48 \<le> k \<and> k \<le> 57 then Some (k - 48)
      else if 97 \<le> k \<and> k \<le> 102 then Some (k - 87)
      else if 65 \<le> k \<and> k \<le> 70 then Some (k - 55)
      else None)"

definition isHexDigit :: "char \<Rightarrow> bool" where
  "isHexDigit c = (hexValue c \<noteq> None)"

definition hexNumber :: "string \<Rightarrow> nat" where
  "hexNumber z = foldl (\<lambda>acc c. 16 * acc + (case hexValue c of None \<Rightarrow> 0 | Some v \<Rightarrow> v)) 0 z"

definition parseInt16 :: "string \<Rightarrow> int option" where
  "parseInt16 str =
     (let s = dropWhile isWhiteSpace str;
          negative = (take 1 s = ''-'');
          s1 = (if take 1 s = ''+'' \<or> take 1 s = ''-'' then drop 1 s else s);
          s2 = (if take 2 s1 = ''0x'' \<or> take 2 s1 = ''0X'' then drop 2 s1 else s1);
          z = takeWhile isHexDigit s2
      in if z = [] then None
         else Some ((if negative then - 1 else 1) * int (hexNumber z)))"

text \<open>The conversion to a 32-bit pattern that \<^verbatim>\<open><<\<close> applies: NaN becomes 0.\<close>

definition toInt32 :: "int option \<Rightarrow> 32 word" where
  "toInt32 v = (case v of None \<Rightarrow> 0 | Some n \<Rightarrow> word_of_int n)"

definition fromCss :: "string \<Rightarrow> IColor" where
  "fromCss s = \<lparr>css = s, rgba = push_bit 8 (toInt32 (parseInt16 (drop 1 s))) OR 0xFF\<rparr>"

subsection \<open>Compositing\<close>

text \<open>\<^verbatim>\<open>Math.round\<close>: the nearest integer, a tie going up.\<close>

definition Math_round :: "real \<Rightarrow> int" where
  "Math_round x = \<lfloor>x + 1 / 2\<rfloor>"

definition blend :: "IColor \<Rightarrow> IColor \<Rightarrow> IColor" where
  "blend bg fg =
     (let a = real_of_int (uint (rgba fg AND 0xFF)) / 255 in
      if a = 1 then \<lparr>css = css fg, rgba = rgba fg\<rparr>
      else
        let fgR = byteAt (rgba fg) 24;
            fgG = byteAt (rgba fg) 16;
            fgB = byteAt (rgba fg) 8;
            bgR = byteAt (rgba bg) 24;
            bgG = byteAt (rgba bg) 16;
            bgB = byteAt (rgba bg) 8;
            r = bgR + Math_round (real_of_int (fgR - bgR) * a);
            g = bgG + Math_round (real_of_int (fgG - bgG) * a);
            b = bgB + Math_round (real_of_int (fgB - bgB) * a)
        in \<lparr>css = toCss r g b, rgba = toRgba r g b 0xFF\<rparr>)"

subsection \<open>Luminance and contrast ratio\<close>

definition rgbRelativeLuminance2 :: "int \<Rightarrow> int \<Rightarrow> int \<Rightarrow> real" where
  "rgbRelativeLuminance2 r g b =
     (let rs = real_of_int r / 255;
          gs = real_of_int g / 255;
          bs = real_of_int b / 255;
          rr = (if rs \<le> 0.03928 then rs / 12.92 else ((rs + 0.055) / 1.055) powr 2.4);
          rg = (if gs \<le> 0.03928 then gs / 12.92 else ((gs + 0.055) / 1.055) powr 2.4);
          rb = (if bs \<le> 0.03928 then bs / 12.92 else ((bs + 0.055) / 1.055) powr 2.4)
      in rr * 0.2126 + rg * 0.7152 + rb * 0.0722)"

definition rgbRelativeLuminance :: "32 word \<Rightarrow> real" where
  "rgbRelativeLuminance rgb =
     rgbRelativeLuminance2 (byteAt rgb 16) (byteAt rgb 8) (uint (rgb AND 0xFF))"

definition contrastRatio :: "real \<Rightarrow> real \<Rightarrow> real" where
  "contrastRatio l1 l2 =
     (if l1 < l2 then (l2 + 0.05) / (l1 + 0.05) else (l1 + 0.05) / (l2 + 0.05))"

subsection \<open>Contrast enforcement\<close>

text \<open>
  The \<^verbatim>\<open>while\<close> loop of \<^verbatim>\<open>reduceLuminance\<close>, on its variables \<^verbatim>\<open>fgR\<close>,
  \<^verbatim>\<open>fgG\<close>, \<^verbatim>\<open>fgB\<close> and \<^verbatim>\<open>cr\<close>. Every round lowers a positive channel, so the
  loop is a total function.
\<close>

lemma ceiling_pos_iff: "0 < \<lceil>x::real\<rceil> \<longleftrightarrow> 0 < x"
  by (simp add: less_ceiling_iff)

lemma reduce_channel_le: "c - max 0 \<lceil>real_of_int c * 0.1\<rceil> \<le> c"
  by simp

lemma reduce_channel_less: "0 < c \<Longrightarrow> c - max 0 \<lceil>real_of_int c * 0.1\<rceil> < c"
proof -
  assume "0 < c"
  then have "0 < real_of_int c * 0.1" by simp
  then have "0 < \<lceil>real_of_int c * 0.1\<rceil>" by (simp only: ceiling_pos_iff)
  then show ?thesis by simp
qed

lemma nat_reduce_le: "nat (c - max 0 \<lceil>real_of_int c * 0.1\<rceil>) \<le> nat c"
  by (rule nat_mono) (rule reduce_channel_le)

lemma nat_reduce_less: "0 < c \<Longrightarrow> nat (c - max 0 \<lceil>real_of_int c * 0.1\<rceil>) < nat c"
  using reduce_channel_less [of c] by (simp only: nat_mono_iff)

function reduceLoop ::
  "int \<Rightarrow> int \<Rightarrow> int \<Rightarrow> real \<Rightarrow> int \<Rightarrow> int \<Rightarrow> int \<Rightarrow> real \<Rightarrow> int \<times> int \<times> int" where
  "reduceLoop bgR bgG bgB ratio fgR fgG fgB cr =
     (if cr < ratio \<and> (fgR > 0 \<or> fgG > 0 \<or> fgB > 0) then
        let fgR' = fgR - max 0 \<lceil>real_of_int fgR * 0.1\<rceil>;
            fgG' = fgG - max 0 \<lceil>real_of_int fgG * 0.1\<rceil>;
            fgB' = fgB - max 0 \<lceil>real_of_int fgB * 0.1\<rceil>;
            cr' = contrastRatio (rgbRelativeLuminance2 fgR' fgB' fgG')
                    (rgbRelativeLuminance2 bgR bgG bgB)
        in reduceLoop bgR bgG bgB ratio fgR' fgG' fgB' cr'
      else (fgR, fgG, fgB))"
  by pat_completeness auto

termination
proof (relation "measure (\<lambda>(bgR, bgG, bgB, ratio, fgR, fgG, fgB, cr). nat fgR + nat fgG + nat fgB)",
    goal_cases)
  case 1
  show ?case by simp
next
  case (2 bgR bgG bgB ratio fgR fgG fgB cr fgR' fgG' fgB' cr')
  have le: "nat fgR' \<le> nat fgR" "nat fgG' \<le> nat fgG" "nat fgB' \<le> nat fgB"
    unfolding 2 by (rule nat_reduce_le)+
  from 2(1) have "fgR > 0 \<or> fgG > 0 \<or> fgB > 0" by simp
  then have "nat fgR' < nat fgR \<or> nat fgG' < nat fgG \<or> nat fgB' < nat fgB"
    unfolding 2 using nat_reduce_less [of fgR] nat_reduce_less [of fgG] nat_reduce_less [of fgB]
    by blast
  with le show ?case by (simp only: in_measure prod.case) linarith
qed

declare reduceLoop.simps [simp del]

definition reduceLuminance :: "IColor \<Rightarrow> IColor \<Rightarrow> real \<Rightarrow> IColor" where
  "reduceLuminance bg fg ratio =
     (let bgR = byteAt (rgba bg) 24;
          bgG = byteAt (rgba bg) 16;
          bgB = byteAt (rgba bg) 8;
          fgR = byteAt (rgba fg) 24;
          fgG = byteAt (rgba fg) 16;
          fgB = byteAt (rgba fg) 8;
          cr = contrastRatio (rgbRelativeLuminance2 fgR fgB fgG)
                 (rgbRelativeLuminance2 bgR bgG bgB)
      in case reduceLoop bgR bgG bgB ratio fgR fgG fgB cr of
           (r, g, b) \<Rightarrow> \<lparr>css = toCss r g b, rgba = toRgba r g b 0xFF\<rparr>)"

text \<open>
  The \<^verbatim>\<open>while\<close> loop of \<^verbatim>\<open>increaseLuminance\<close>. A round adds
  \<^verbatim>\<open>Math.floor((255 - c) * 0.1)\<close> to a channel \<open>c\<close>, which is nothing once
  \<open>c\<close> is above 245, so the loop need not end: \<open>None\<close> is the run that never returns.
\<close>

partial_function (option) increaseLoop ::
  "int \<Rightarrow> int \<Rightarrow> int \<Rightarrow> real \<Rightarrow> int \<Rightarrow> int \<Rightarrow> int \<Rightarrow> real \<Rightarrow> (int \<times> int \<times> int) option" where
  "increaseLoop bgR bgG bgB ratio fgR fgG fgB cr =
     (if cr < ratio \<and> (fgR < 0xFF \<or> fgG < 0xFF \<or> fgB < 0xFF) then
        let fgR' = min 0xFF (fgR + \<lfloor>real_of_int (255 - fgR) * 0.1\<rfloor>);
            fgG' = min 0xFF (fgG + \<lfloor>real_of_int (255 - fgG) * 0.1\<rfloor>);
            fgB' = min 0xFF (fgB + \<lfloor>real_of_int (255 - fgB) * 0.1\<rfloor>);
            cr' = contrastRatio (rgbRelativeLuminance2 fgR' fgB' fgG')
                    (rgbRelativeLuminance2 bgR bgG bgB)
        in increaseLoop bgR bgG bgB ratio fgR' fgG' fgB' cr'
      else Some (fgR, fgG, fgB))"

definition increaseLuminance :: "IColor \<Rightarrow> IColor \<Rightarrow> real \<Rightarrow> IColor option" where
  "increaseLuminance bg fg ratio =
     (let bgR = byteAt (rgba bg) 24;
          bgG = byteAt (rgba bg) 16;
          bgB = byteAt (rgba bg) 8;
          fgR = byteAt (rgba fg) 24;
          fgG = byteAt (rgba fg) 16;
          fgB = byteAt (rgba fg) 8;
          cr = contrastRatio (rgbRelativeLuminance2 fgR fgB fgG)
                 (rgbRelativeLuminance2 bgR bgG bgB)
      in case increaseLoop bgR bgG bgB ratio fgR fgG fgB cr of
           None \<Rightarrow> None
         | Some (r, g, b) \<Rightarrow> Some \<lparr>css = toCss r g b, rgba = toRgba r g b 0xFF\<rparr>)"

text \<open>
  The result of \<^verbatim>\<open>ensureContrastRatio\<close> is \<open>Some None\<close> for \<^verbatim>\<open>undefined\<close>,
  \<open>Some (Some c)\<close> for the colour \<open>c\<close>, and \<open>None\<close> when the call does not return.
\<close>

definition ensureContrastRatio :: "IColor \<Rightarrow> IColor \<Rightarrow> real \<Rightarrow> IColor option option" where
  "ensureContrastRatio bg fg ratio =
     (let bgL = rgbRelativeLuminance (signed_drop_bit 8 (rgba bg));
          fgL = rgbRelativeLuminance (signed_drop_bit 8 (rgba fg));
          cr = contrastRatio bgL fgL
      in if cr < ratio then
           if fgL < bgL then Some (Some (reduceLuminance bg fg ratio))
           else map_option Some (increaseLuminance bg fg ratio)
         else Some None)"

subsection \<open>Notions of the specification\<close>

text \<open>
  The two rounding rules that the specification allows for \<open>blend\<close>, and its formula
  for a blended channel, \<^verbatim>\<open>bg_channel + round((fg_channel - bg_channel) * a)\<close> with
  \<^verbatim>\<open>a = alpha / 255\<close>, over a rounding rule.
\<close>

definition roundHalfAwayFromZero :: "real \<Rightarrow> int" where
  "roundHalfAwayFromZero x = (if x < 0 then - \<lfloor>- x + 1 / 2\<rfloor> else \<lfloor>x + 1 / 2\<rfloor>)"

definition roundHalfToEven :: "real \<Rightarrow> int" where
  "roundHalfToEven x =
     (let f = \<lfloor>x\<rfloor> in
      if x - of_int f < 1 / 2 then f
      else if 1 / 2 < x - of_int f then f + 1
      else if even f then f else f + 1)"

definition blendChannel :: "(real \<Rightarrow> int) \<Rightarrow> int \<Rightarrow> int \<Rightarrow> int \<Rightarrow> int" where
  "blendChannel rnd bgc fgc alpha =
     bgc + rnd (real_of_int (fgc - bgc) * (real_of_int alpha / 255))"

text \<open>A string that matches \<^verbatim>\<open>#[0-9a-f]{6}\<close>, the whole of it.\<close>

definition isLowerHexDigit :: "char \<Rightarrow> bool" where
  "isLowerHexDigit c = (c \<in> set ''0123456789abcdef'')"

definition matchesHexColour :: "string \<Rightarrow> bool" where
  "matchesHexColour s =
     (case s of [] \<Rightarrow> False
      | c # ds \<Rightarrow> c = CHR ''#'' \<and> length ds = 6 \<and> list_all isLowerHexDigit ds)"

text \<open>
  The luminance formula of the specification: the sRGB-to-linear transform of a channel,
  and the weighted sum \<^verbatim>\<open>0.2126 * linear_R + 0.7152 * linear_G + 0.0722 * linear_B\<close>
  (the canonical order). In \<open>swappedLuminance\<close> the green and the blue channel have
  changed places: blue carries the weight 0.7152 and green the weight 0.0722.
\<close>

definition linearChannel :: "int \<Rightarrow> real" where
  "linearChannel c =
     (let s = real_of_int c / 255 in
      if s \<le> 0.03928 then s / 12.92 else ((s + 0.055) / 1.055) powr 2.4)"

definition canonicalLuminance :: "int \<Rightarrow> int \<Rightarrow> int \<Rightarrow> real" where
  "canonicalLuminance r g b =
     0.2126 * linearChannel r + 0.7152 * linearChannel g + 0.0722 * linearChannel b"

definition swappedLuminance :: "int \<Rightarrow> int \<Rightarrow> int \<Rightarrow> real" where
  "swappedLuminance r g b =
     0.2126 * linearChannel r + 0.7152 * linearChannel b + 0.0722 * linearChannel g"

subsection \<open>Auxiliary notions\<close>

text \<open>
  \<^verbatim>\<open>reduceLuminance\<close> as it would be if the contrast ratio computed before the loop
  used the canonical order, and only the recomputation in the loop body the swapped one.
\<close>

definition reduceLuminance_canonical_start :: "IColor \<Rightarrow> IColor \<Rightarrow> real \<Rightarrow> IColor" where
  "reduceLuminance_canonical_start bg fg ratio =
     (let bgR = byteAt (rgba bg) 24;
          bgG = byteAt (rgba bg) 16;
          bgB = byteAt (rgba bg) 8;
          fgR = byteAt (rgba fg) 24;
          fgG = byteAt (rgba fg) 16;
          fgB = byteAt (rgba fg) 8;
          cr = contrastRatio (rgbRelativeLuminance2 fgR fgG fgB)
                 (rgbRelativeLuminance2 bgR bgG bgB)
      in case reduceLoop bgR bgG bgB ratio fgR fgG fgB cr of
           (r, g, b) \<Rightarrow> \<lparr>css = toCss r g b, rgba = toRgba r g b 0xFF\<rparr>)"

text \<open>
  The number of rounds that the loop of \<^verbatim>\<open>reduceLuminance\<close> runs: the recursion of
  \<open>reduceLoop\<close>, counting the rounds instead of returning the channels.
\<close>

function reduceRounds ::
  "int \<Rightarrow> int \<Rightarrow> int \<Rightarrow> real \<Rightarrow> int \<Rightarrow> int \<Rightarrow> int \<Rightarrow> real \<Rightarrow> nat" where
  "reduceRounds bgR bgG bgB ratio fgR fgG fgB cr =
     (if cr < ratio \<and> (fgR > 0 \<or> fgG > 0 \<or> fgB > 0) then
        let fgR' = fgR - max 0 \<lceil>real_of_int fgR * 0.1\<rceil>;
            fgG' = fgG - max 0 \<lceil>real_of_int fgG * 0.1\<rceil>;
            fgB' = fgB - max 0 \<lceil>real_of_int fgB * 0.1\<rceil>;
            cr' = contrastRatio (rgbRelativeLuminance2 fgR' fgB' fgG')
                    (rgbRelativeLuminance2 bgR bgG bgB)
        in Suc (reduceRounds bgR bgG bgB ratio fgR' fgG' fgB' cr')
      else 0)"
  by pat_completeness auto

termination
proof (relation "measure (\<lambda>(bgR, bgG, bgB, ratio, fgR, fgG, fgB, cr). nat fgR + nat fgG + nat fgB)",
    goal_cases)
  case 1
  show ?case by simp
next
  case (2 bgR bgG bgB ratio fgR fgG fgB cr fgR' fgG' fgB' cr')
  have le: "nat fgR' \<le> nat fgR" "nat fgG' \<le> nat fgG" "nat fgB' \<le> nat fgB"
    unfolding 2 by (rule nat_reduce_le)+
  from 2(1) have "fgR > 0 \<or> fgG > 0 \<or> fgB > 0" by simp
  then have "nat fgR' < nat fgR \<or> nat fgG' < nat fgG \<or> nat fgB' < nat fgB"
    unfolding 2 using nat_reduce_less [of fgR] nat_reduce_less [of fgG] nat_reduce_less [of fgB]
    by blast
  with le show ?case by (simp only: in_measure prod.case) linarith
qed

declare reduceRounds.simps [simp del]

text \<open>
  One round of the loop of \<^verbatim>\<open>increaseLuminance\<close> on the channels, and the test of
  the loop at given channels, with \<^verbatim>\<open>cr\<close> as the source computes it from them (before
  the loop and at the end of every round alike).
\<close>

definition increaseStep :: "int \<times> int \<times> int \<Rightarrow> int \<times> int \<times> int" where
  "increaseStep s =
     (case s of (fgR, fgG, fgB) \<Rightarrow>
        (min 0xFF (fgR + \<lfloor>real_of_int (255 - fgR) * 0.1\<rfloor>),
         min 0xFF (fgG + \<lfloor>real_of_int (255 - fgG) * 0.1\<rfloor>),
         min 0xFF (fgB + \<lfloor>real_of_int (255 - fgB) * 0.1\<rfloor>)))"

definition increaseGuard :: "int \<times> int \<times> int \<Rightarrow> real \<Rightarrow> int \<times> int \<times> int \<Rightarrow> bool" where
  "increaseGuard bg ratio s =
     (case bg of (bgR, bgG, bgB) \<Rightarrow> case s of (fgR, fgG, fgB) \<Rightarrow>
        contrastRatio (rgbRelativeLuminance2 fgR fgB fgG) (rgbRelativeLuminance2 bgR bgG bgB) < ratio
        \<and> (fgR < 0xFF \<or> fgG < 0xFF \<or> fgB < 0xFF))"

text \<open>A channel value that fits a byte.\<close>

definition byteRange :: "int \<Rightarrow> bool" where
  "byteRange c = (0 \<le> c \<and> c \<le> 255)"

section \<open>Bytes of a packed colour\<close>

lemma and_255_take_bit: "(w :: 32 word) AND 0xFF = take_bit 8 w"
proof -
  have "(0xFF :: 32 word) = mask 8" by (simp add: mask_eq_exp_minus_1)
  then show ?thesis by (simp add: take_bit_eq_mask)
qed

lemma uint_and_255_range: "0 \<le> uint ((w :: 32 word) AND 0xFF) \<and> uint (w AND 0xFF) \<le> 255"
proof -
  have "uint (take_bit 8 w) < 2 ^ 8"
    by (simp only: unsigned_take_bit_eq take_bit_int_less_exp)
  then show ?thesis by (simp add: and_255_take_bit)
qed

lemma byteAt_range: "0 \<le> byteAt w n \<and> byteAt w n \<le> 255"
  unfolding byteAt_def by (rule uint_and_255_range)

lemma byteAt_drop_bit: "n \<le> 24 \<Longrightarrow> byteAt w n = uint (take_bit 8 (drop_bit n w))"
proof -
  assume "n \<le> 24"
  then have "take_bit 8 (signed_drop_bit n w) = take_bit 8 (drop_bit n w)"
    by (auto simp: bit_eq_iff bit_simps)
  then show ?thesis by (simp add: byteAt_def and_255_take_bit)
qed

lemma toRgba_alpha: "toRgba r g b 0xFF AND 0xFF = 0xFF"
  by (auto simp: toRgba_def and_255_take_bit bit_eq_iff bit_simps)

lemma bit_byte_int: "0 \<le> c \<Longrightarrow> c \<le> 255 \<Longrightarrow> bit (c :: int) n \<Longrightarrow> n < 8"
proof -
  assume "0 \<le> c" "c \<le> 255" "bit c n"
  then have "take_bit 8 c = c" by (simp add: take_bit_int_eq_self)
  with \<open>bit c n\<close> have "bit (take_bit 8 c) n" by simp
  then show "n < 8" by (simp only: bit_take_bit_iff)
qed

lemma uint_word_of_byte: "0 \<le> c \<Longrightarrow> c \<le> 255 \<Longrightarrow> uint (word_of_int c :: 32 word) = c"
  by (simp add: uint_word_of_int)

lemma word_255_mask: "(word_of_int 255 :: 32 word) = mask 8"
  by (simp add: mask_eq_exp_minus_1)

lemma toRgba_take_bit:
  "take_bit 8 (drop_bit 24 (toRgba (take_bit 8 r) (take_bit 8 g) (take_bit 8 b) 0xFF)) = word_of_int (take_bit 8 r)"
  "take_bit 8 (drop_bit 16 (toRgba (take_bit 8 r) (take_bit 8 g) (take_bit 8 b) 0xFF)) = word_of_int (take_bit 8 g)"
  "take_bit 8 (drop_bit 8 (toRgba (take_bit 8 r) (take_bit 8 g) (take_bit 8 b) 0xFF)) = word_of_int (take_bit 8 b)"
  unfolding toRgba_def word_255_mask
  by (auto simp: bit_eq_iff bit_simps)

lemma byteAt_toRgba:
  assumes "0 \<le> r" "r \<le> 255" "0 \<le> g" "g \<le> 255" "0 \<le> b" "b \<le> 255"
  shows "byteAt (toRgba r g b 0xFF) 24 = r"
    and "byteAt (toRgba r g b 0xFF) 16 = g"
    and "byteAt (toRgba r g b 0xFF) 8 = b"
proof -
  have t: "take_bit 8 r = r" "take_bit 8 g = g" "take_bit 8 b = b"
    using assms by (simp_all add: take_bit_int_eq_self)
  show "byteAt (toRgba r g b 0xFF) 24 = r"
    using toRgba_take_bit(1) [of r g b] assms unfolding t
    by (simp add: byteAt_drop_bit uint_word_of_byte)
  show "byteAt (toRgba r g b 0xFF) 16 = g"
    using toRgba_take_bit(2) [of r g b] assms unfolding t
    by (simp add: byteAt_drop_bit uint_word_of_byte)
  show "byteAt (toRgba r g b 0xFF) 8 = b"
    using toRgba_take_bit(3) [of r g b] assms unfolding t
    by (simp add: byteAt_drop_bit uint_word_of_byte)
qed

section \<open>Bounds on luminance and contrast ratio\<close>

lemma linear_channel_range:
  fixes c :: real
  assumes "0 \<le> c" "c \<le> 1"
  shows "0 \<le> (if c \<le> 0.03928 then c / 12.92 else ((c + 0.055) / 1.055) powr 2.4)"
    and "(if c \<le> 0.03928 then c / 12.92 else ((c + 0.055) / 1.055) powr 2.4) \<le> 1"
proof -
  show "0 \<le> (if c \<le> 0.03928 then c / 12.92 else ((c + 0.055) / 1.055) powr 2.4)"
    using assms by simp
  have "\<bar>(c + 0.055) / 1.055\<bar> \<le> 1" using assms by simp
  then have "((c + 0.055) / 1.055) powr 2.4 \<le> 1" by (intro powr_le1) simp_all
  moreover have "c / 12.92 \<le> 1" using assms by simp
  ultimately show "(if c \<le> 0.03928 then c / 12.92 else ((c + 0.055) / 1.055) powr 2.4) \<le> 1"
    by simp
qed

lemma rgbRelativeLuminance2_range:
  assumes "0 \<le> r" "r \<le> 255" "0 \<le> g" "g \<le> 255" "0 \<le> b" "b \<le> 255"
  shows "0 \<le> rgbRelativeLuminance2 r g b" and "rgbRelativeLuminance2 r g b \<le> 1"
proof -
  define lin :: "real \<Rightarrow> real" where
    "lin c = (if c \<le> 0.03928 then c / 12.92 else ((c + 0.055) / 1.055) powr 2.4)" for c
  have eq: "rgbRelativeLuminance2 r g b =
      lin (real_of_int r / 255) * 0.2126 + lin (real_of_int g / 255) * 0.7152
        + lin (real_of_int b / 255) * 0.0722"
    by (simp add: rgbRelativeLuminance2_def lin_def Let_def)
  have u: "0 \<le> real_of_int r / 255" "real_of_int r / 255 \<le> 1"
      "0 \<le> real_of_int g / 255" "real_of_int g / 255 \<le> 1"
      "0 \<le> real_of_int b / 255" "real_of_int b / 255 \<le> 1"
    using assms by simp_all
  have R: "0 \<le> lin (real_of_int r / 255)" "lin (real_of_int r / 255) \<le> 1"
    unfolding lin_def using linear_channel_range [OF u(1,2)] by blast+
  have G: "0 \<le> lin (real_of_int g / 255)" "lin (real_of_int g / 255) \<le> 1"
    unfolding lin_def using linear_channel_range [OF u(3,4)] by blast+
  have B: "0 \<le> lin (real_of_int b / 255)" "lin (real_of_int b / 255) \<le> 1"
    unfolding lin_def using linear_channel_range [OF u(5,6)] by blast+
  show "0 \<le> rgbRelativeLuminance2 r g b" unfolding eq using R G B by simp
  have "lin (real_of_int r / 255) * 0.2126 \<le> 0.2126"
      "lin (real_of_int g / 255) * 0.7152 \<le> 0.7152"
      "lin (real_of_int b / 255) * 0.0722 \<le> 0.0722"
    using R(2) G(2) B(2) by simp_all
  then show "rgbRelativeLuminance2 r g b \<le> 1" unfolding eq by simp
qed

lemma contrastRatio_range:
  assumes "0 \<le> l1" "l1 \<le> 1" "0 \<le> l2" "l2 \<le> 1"
  shows "1 \<le> contrastRatio l1 l2" and "contrastRatio l1 l2 \<le> 21"
proof -
  have *: "1 \<le> (a + 0.05) / (b + 0.05) \<and> (a + 0.05) / (b + 0.05) \<le> 21"
    if "0 \<le> b" "b \<le> a" "a \<le> 1" for a b :: real
  proof -
    have "0 < b + 0.05" using that by simp
    then show ?thesis using that by (simp add: field_simps)
  qed
  show "1 \<le> contrastRatio l1 l2"
    using * [of l1 l2] * [of l2 l1] assms unfolding contrastRatio_def by (simp split: if_splits)
  show "contrastRatio l1 l2 \<le> 21"
    using * [of l1 l2] * [of l2 l1] assms unfolding contrastRatio_def by (simp split: if_splits)
qed

section \<open>The loop of \<^verbatim>\<open>reduceLuminance\<close> ends within 255 rounds\<close>

text \<open>
  A round takes at least 1 from every positive channel, so the largest channel bounds
  the number of rounds.
\<close>

lemma reduce_channel_drop:
  "c \<le> m \<Longrightarrow> 0 < m \<Longrightarrow> c - max 0 \<lceil>real_of_int c * 0.1\<rceil> \<le> m - 1"
  using reduce_channel_le [of c] reduce_channel_less [of c] by linarith

lemma reduceRounds_bound:
  "fgR \<le> m \<Longrightarrow> fgG \<le> m \<Longrightarrow> fgB \<le> m \<Longrightarrow> 0 \<le> m
    \<Longrightarrow> reduceRounds bgR bgG bgB ratio fgR fgG fgB cr \<le> nat m"
proof (induction bgR bgG bgB ratio fgR fgG fgB cr arbitrary: m rule: reduceRounds.induct)
  case (1 bgR bgG bgB ratio fgR fgG fgB cr)
  show ?case
  proof (cases "cr < ratio \<and> (fgR > 0 \<or> fgG > 0 \<or> fgB > 0)")
    case False
    then show ?thesis by (subst reduceRounds.simps) (simp only: if_False le0)
  next
    case True
    with 1(2-4) have m: "0 < m" by linarith
    define fgR' where "fgR' = fgR - max 0 \<lceil>real_of_int fgR * 0.1\<rceil>"
    define fgG' where "fgG' = fgG - max 0 \<lceil>real_of_int fgG * 0.1\<rceil>"
    define fgB' where "fgB' = fgB - max 0 \<lceil>real_of_int fgB * 0.1\<rceil>"
    define cr' where "cr' = contrastRatio (rgbRelativeLuminance2 fgR' fgB' fgG')
      (rgbRelativeLuminance2 bgR bgG bgB)"
    have drop: "fgR' \<le> m - 1" "fgG' \<le> m - 1" "fgB' \<le> m - 1"
      unfolding fgR'_def fgG'_def fgB'_def using 1(2-4) m by (simp_all only: reduce_channel_drop)
    have "reduceRounds bgR bgG bgB ratio fgR' fgG' fgB' cr' \<le> nat (m - 1)"
      using drop m
      by (intro "1.IH" [OF True fgR'_def fgG'_def fgB'_def cr'_def]) simp_all
    moreover have "reduceRounds bgR bgG bgB ratio fgR fgG fgB cr
        = Suc (reduceRounds bgR bgG bgB ratio fgR' fgG' fgB' cr')"
      using True unfolding fgR'_def fgG'_def fgB'_def cr'_def
      by (subst reduceRounds.simps) (simp only: Let_def simp_thms if_True)
    ultimately show ?thesis using m by linarith
  qed
qed

lemma reduceLuminance_rounds:
  "reduceRounds (byteAt (rgba bg) 24) (byteAt (rgba bg) 16) (byteAt (rgba bg) 8) ratio
     (byteAt (rgba fg) 24) (byteAt (rgba fg) 16) (byteAt (rgba fg) 8) cr \<le> 255"
  using reduceRounds_bound [of "byteAt (rgba fg) 24" 255 "byteAt (rgba fg) 16" "byteAt (rgba fg) 8"]
    byteAt_range [of "rgba fg" 24] byteAt_range [of "rgba fg" 16] byteAt_range [of "rgba fg" 8]
  by simp

section \<open>The loop of \<^verbatim>\<open>increaseLuminance\<close> need not end\<close>

lemma increase_channel_range:
  "0 \<le> c \<Longrightarrow> c \<le> 255 \<Longrightarrow>
    0 \<le> min 255 (c + \<lfloor>real_of_int (255 - c) * 0.1\<rfloor>)
    \<and> min 255 (c + \<lfloor>real_of_int (255 - c) * 0.1\<rfloor>) \<le> 255"
proof -
  assume "0 \<le> c" "c \<le> 255"
  then have "0 \<le> real_of_int (255 - c) * 0.1" by simp
  then have "0 \<le> \<lfloor>real_of_int (255 - c) * 0.1\<rfloor>" by (simp only: zero_le_floor)
  with \<open>0 \<le> c\<close> show ?thesis by simp
qed

lemma increase_channel_below:
  "c < 255 \<Longrightarrow> min 255 (c + \<lfloor>real_of_int (255 - c) * 0.1\<rfloor>) < 255"
proof -
  assume "c < 255"
  then have "real_of_int (255 - c) * 0.1 < real_of_int (255 - c)" by simp
  then have "\<lfloor>real_of_int (255 - c) * 0.1\<rfloor> < 255 - c" by (simp only: floor_less_iff)
  then show ?thesis by simp
qed

lemma increase_channel_stuck:
  "246 \<le> c \<Longrightarrow> c \<le> 255 \<Longrightarrow> min 255 (c + \<lfloor>real_of_int (255 - c) * 0.1\<rfloor>) = c"
proof -
  assume "246 \<le> c" "c \<le> 255"
  then have "0 \<le> real_of_int (255 - c) * 0.1" "real_of_int (255 - c) * 0.1 < 1" by simp_all
  then have "\<lfloor>real_of_int (255 - c) * 0.1\<rfloor> = 0" by (simp only: floor_eq_iff) simp
  with \<open>c \<le> 255\<close> show ?thesis by simp
qed


lemma increaseLoop_unmeetable_aux:
  assumes "increaseLoop bgR bgG bgB ratio fgR fgG fgB cr = Some y"
  shows "\<not> (21 < ratio \<and> cr \<le> 21 \<and> byteRange bgR \<and> byteRange bgG \<and> byteRange bgB
    \<and> byteRange fgR \<and> byteRange fgG \<and> byteRange fgB
    \<and> (fgR < 255 \<or> fgG < 255 \<or> fgB < 255))"
proof -
  let ?I = "\<lambda>bgR bgG bgB ratio fgR fgG fgB (cr :: real).
    21 < ratio \<and> cr \<le> 21 \<and> byteRange bgR \<and> byteRange bgG \<and> byteRange bgB
    \<and> byteRange fgR \<and> byteRange fgG \<and> byteRange fgB
    \<and> (fgR < 255 \<or> fgG < 255 \<or> fgB < 255)"
  let ?P = "\<lambda>bgR bgG bgB ratio fgR fgG fgB cr (y :: int \<times> int \<times> int).
    \<not> ?I bgR bgG bgB ratio fgR fgG fgB cr"
  have "?P bgR bgG bgB ratio fgR fgG fgB cr y"
  proof (rule increaseLoop.raw_induct [where P = ?P, OF _ assms], goal_cases)
    case (1 f bgR bgG bgB ratio fgR fgG fgB cr y)
    show ?case
    proof
      assume inv: "?I bgR bgG bgB ratio fgR fgG fgB cr"
      define fgR' where "fgR' = min 255 (fgR + \<lfloor>real_of_int (255 - fgR) * 0.1\<rfloor>)"
      define fgG' where "fgG' = min 255 (fgG + \<lfloor>real_of_int (255 - fgG) * 0.1\<rfloor>)"
      define fgB' where "fgB' = min 255 (fgB + \<lfloor>real_of_int (255 - fgB) * 0.1\<rfloor>)"
      define cr' where "cr' = contrastRatio (rgbRelativeLuminance2 fgR' fgB' fgG')
        (rgbRelativeLuminance2 bgR bgG bgB)"
      from inv have cond: "cr < ratio \<and> (fgR < 255 \<or> fgG < 255 \<or> fgB < 255)" by auto
      with 1(2) have run: "f bgR bgG bgB ratio fgR' fgG' fgB' cr' = Some y"
        by (simp add: Let_def fgR'_def fgG'_def fgB'_def cr'_def)
      have rng: "byteRange fgR'" "byteRange fgG'" "byteRange fgB'"
        using inv increase_channel_range [of fgR] increase_channel_range [of fgG]
          increase_channel_range [of fgB]
        unfolding byteRange_def fgR'_def fgG'_def fgB'_def by blast+
      have below: "fgR' < 255 \<or> fgG' < 255 \<or> fgB' < 255"
        using inv increase_channel_below [of fgR] increase_channel_below [of fgG]
          increase_channel_below [of fgB]
        unfolding fgR'_def fgG'_def fgB'_def by blast
      have "cr' \<le> 21"
        unfolding cr'_def using rng inv unfolding byteRange_def
        by (intro contrastRatio_range rgbRelativeLuminance2_range) simp_all
      with inv rng below have "?I bgR bgG bgB ratio fgR' fgG' fgB' cr'" by blast
      with 1(1) [OF run] show False by blast
    qed
  qed
  then show ?thesis .
qed

lemma increaseLoop_stuck_aux:
  assumes "increaseLoop bgR bgG bgB ratio fgR fgG fgB cr = Some y"
  shows "\<not> (cr < ratio
    \<and> contrastRatio (rgbRelativeLuminance2 fgR fgB fgG) (rgbRelativeLuminance2 bgR bgG bgB) < ratio
    \<and> 246 \<le> fgR \<and> fgR \<le> 255 \<and> 246 \<le> fgG \<and> fgG \<le> 255 \<and> 246 \<le> fgB \<and> fgB \<le> 255
    \<and> (fgR < 255 \<or> fgG < 255 \<or> fgB < 255))"
proof -
  let ?I = "\<lambda>bgR bgG bgB ratio fgR fgG fgB (cr :: real). cr < ratio
    \<and> contrastRatio (rgbRelativeLuminance2 fgR fgB fgG) (rgbRelativeLuminance2 bgR bgG bgB) < ratio
    \<and> 246 \<le> fgR \<and> fgR \<le> 255 \<and> 246 \<le> fgG \<and> fgG \<le> 255 \<and> 246 \<le> fgB \<and> fgB \<le> 255
    \<and> (fgR < 255 \<or> fgG < 255 \<or> fgB < 255)"
  let ?P = "\<lambda>bgR bgG bgB ratio fgR fgG fgB cr (y :: int \<times> int \<times> int).
    \<not> ?I bgR bgG bgB ratio fgR fgG fgB cr"
  have "?P bgR bgG bgB ratio fgR fgG fgB cr y"
  proof (rule increaseLoop.raw_induct [where P = ?P, OF _ assms], goal_cases)
    case (1 f bgR bgG bgB ratio fgR fgG fgB cr y)
    show ?case
    proof
      assume inv: "?I bgR bgG bgB ratio fgR fgG fgB cr"
      have same: "min 255 (fgR + \<lfloor>real_of_int (255 - fgR) * 0.1\<rfloor>) = fgR"
        "min 255 (fgG + \<lfloor>real_of_int (255 - fgG) * 0.1\<rfloor>) = fgG"
        "min 255 (fgB + \<lfloor>real_of_int (255 - fgB) * 0.1\<rfloor>) = fgB"
        using inv by (simp_all only: increase_channel_stuck)
      from inv have cond: "cr < ratio \<and> (fgR < 255 \<or> fgG < 255 \<or> fgB < 255)" by blast
      with 1(2) have run: "f bgR bgG bgB ratio fgR fgG fgB
          (contrastRatio (rgbRelativeLuminance2 fgR fgB fgG) (rgbRelativeLuminance2 bgR bgG bgB))
          = Some y"
        unfolding same by (simp add: Let_def)
      from 1(1) [OF run] inv show False by blast
    qed
  qed
  then show ?thesis .
qed

lemma rgbRelativeLuminance_shifted:
  "rgbRelativeLuminance (signed_drop_bit 8 w)
    = rgbRelativeLuminance2 (byteAt w 24) (byteAt w 16) (byteAt w 8)"
  by (simp add: rgbRelativeLuminance_def byteAt_def signed_drop_bit_signed_drop_bit)

lemma rgbRelativeLuminance2_byteAt_range:
  "0 \<le> rgbRelativeLuminance2 (byteAt u i) (byteAt v j) (byteAt w k)"
  "rgbRelativeLuminance2 (byteAt u i) (byteAt v j) (byteAt w k) \<le> 1"
  using byteAt_range [of u i] byteAt_range [of v j] byteAt_range [of w k]
  by (simp_all add: rgbRelativeLuminance2_range)

lemma increaseLuminance_unmeetable:
  assumes "21 < ratio"
    and "byteAt (rgba fg) 24 < 255 \<or> byteAt (rgba fg) 16 < 255 \<or> byteAt (rgba fg) 8 < 255"
  shows "increaseLuminance bg fg ratio = None"
proof -
  let ?cr = "contrastRatio
    (rgbRelativeLuminance2 (byteAt (rgba fg) 24) (byteAt (rgba fg) 8) (byteAt (rgba fg) 16))
    (rgbRelativeLuminance2 (byteAt (rgba bg) 24) (byteAt (rgba bg) 16) (byteAt (rgba bg) 8))"
  have cr: "?cr \<le> 21"
    by (intro contrastRatio_range rgbRelativeLuminance2_byteAt_range)
  have "increaseLoop (byteAt (rgba bg) 24) (byteAt (rgba bg) 16) (byteAt (rgba bg) 8) ratio
      (byteAt (rgba fg) 24) (byteAt (rgba fg) 16) (byteAt (rgba fg) 8) ?cr = None"
  proof (cases "increaseLoop (byteAt (rgba bg) 24) (byteAt (rgba bg) 16) (byteAt (rgba bg) 8) ratio
      (byteAt (rgba fg) 24) (byteAt (rgba fg) 16) (byteAt (rgba fg) 8) ?cr")
    case None
    then show ?thesis .
  next
    case (Some y)
    from increaseLoop_unmeetable_aux [OF Some] assms cr show ?thesis
      by (simp add: byteRange_def byteAt_range)
  qed
  then show ?thesis by (simp add: increaseLuminance_def Let_def)
qed

lemma ensureContrastRatio_unmeetable:
  assumes "21 < ratio"
    and "\<not> rgbRelativeLuminance (signed_drop_bit 8 (rgba fg))
          < rgbRelativeLuminance (signed_drop_bit 8 (rgba bg))"
    and "byteAt (rgba fg) 24 < 255 \<or> byteAt (rgba fg) 16 < 255 \<or> byteAt (rgba fg) 8 < 255"
  shows "ensureContrastRatio bg fg ratio = None"
proof -
  have "contrastRatio (rgbRelativeLuminance (signed_drop_bit 8 (rgba bg)))
      (rgbRelativeLuminance (signed_drop_bit 8 (rgba fg))) \<le> 21"
    unfolding rgbRelativeLuminance_shifted
    by (intro contrastRatio_range rgbRelativeLuminance2_byteAt_range)
  with assms(1) have "contrastRatio (rgbRelativeLuminance (signed_drop_bit 8 (rgba bg)))
      (rgbRelativeLuminance (signed_drop_bit 8 (rgba fg))) < ratio" by simp
  with assms(2) increaseLuminance_unmeetable [OF assms(1,3), of bg] show ?thesis
    by (simp add: ensureContrastRatio_def Let_def)
qed

lemma luminance_250_below_1: "rgbRelativeLuminance2 250 250 250 < 1"
proof -
  let ?x = "((250 / 255 + 0.055) / 1.055 :: real)"
  have "?x powr 2.4 < 1" by (subst powr01_less_one) simp_all
  then have "?x powr 2.4 * 0.2126 + ?x powr 2.4 * 0.7152 + ?x powr 2.4 * 0.0722 < 1"
    by simp
  then show ?thesis by (simp add: rgbRelativeLuminance2_def)
qed

section \<open>Evaluation at concrete colours\<close>

lemma reduceLoop_stop:
  "\<not> (cr < ratio \<and> (fgR > 0 \<or> fgG > 0 \<or> fgB > 0))
    \<Longrightarrow> reduceLoop bgR bgG bgB ratio fgR fgG fgB cr = (fgR, fgG, fgB)"
  by (subst reduceLoop.simps) (simp only: if_False)

lemma increaseLoop_stop:
  "\<not> (cr < ratio \<and> (fgR < 255 \<or> fgG < 255 \<or> fgB < 255))
    \<Longrightarrow> increaseLoop bgR bgG bgB ratio fgR fgG fgB cr = Some (fgR, fgG, fgB)"
  by (subst increaseLoop.simps) (simp only: if_False)

lemma toCss_black: "toCss 0 0 0 = ''#000000''"
  by (simp add: toCss_def toPaddedHex_def toString16_def toHex.simps hexDigit_def)

lemma toCss_white: "toCss 255 255 255 = ''#ffffff''"
  by (simp add: toCss_def toPaddedHex_def toString16_def toHex.simps hexDigit_def)

lemma luminance_black: "rgbRelativeLuminance2 0 0 0 = 0"
  by (simp add: rgbRelativeLuminance2_def)

lemma luminance_white: "rgbRelativeLuminance2 255 255 255 = 1"
  by (simp add: rgbRelativeLuminance2_def)

section \<open>Rounding in \<^verbatim>\<open>blend\<close>\<close>

lemma blend_product_no_tie:
  fixes d \<alpha> n :: int
  shows "real_of_int d * (real_of_int \<alpha> / 255) \<noteq> of_int n + 1 / 2"
proof
  assume "real_of_int d * (real_of_int \<alpha> / 255) = of_int n + 1 / 2"
  then have "real_of_int (2 * (d * \<alpha>)) = real_of_int (255 * (2 * n + 1))"
    by (simp add: field_simps)
  then have "2 * (d * \<alpha>) = 255 * (2 * n + 1)" by (simp only: of_int_eq_iff)
  then have "even (255 * (2 * n + 1))" by (metis dvd_triv_left)
  then show False by simp
qed

lemma Math_round_half_even:
  assumes "\<And>n. x \<noteq> of_int n + 1 / 2"
  shows "roundHalfToEven x = Math_round x"
proof -
  have nt: "x - of_int \<lfloor>x\<rfloor> \<noteq> 1 / 2" using assms [of "\<lfloor>x\<rfloor>"] by linarith
  show ?thesis
  proof (cases "x - of_int \<lfloor>x\<rfloor> < 1 / 2")
    case True
    then have "\<lfloor>x + 1 / 2\<rfloor> = \<lfloor>x\<rfloor>" by (intro floor_unique) linarith+
    with True show ?thesis by (simp add: roundHalfToEven_def Math_round_def)
  next
    case False
    with nt have gt: "1 / 2 < x - of_int \<lfloor>x\<rfloor>" by linarith
    then have "\<lfloor>x + 1 / 2\<rfloor> = \<lfloor>x\<rfloor> + 1" by (intro floor_unique) (simp, linarith)+
    with False gt show ?thesis by (simp add: roundHalfToEven_def Math_round_def Let_def)
  qed
qed

lemma Math_round_half_away:
  assumes "\<And>n. x \<noteq> of_int n + 1 / 2"
  shows "roundHalfAwayFromZero x = Math_round x"
proof (cases "x < 0")
  case False
  then show ?thesis by (simp add: roundHalfAwayFromZero_def Math_round_def)
next
  case True
  define n where "n = \<lfloor>x + 1 / 2\<rfloor>"
  have "of_int n \<le> x + 1 / 2" "x + 1 / 2 < of_int n + 1" unfolding n_def by linarith+
  moreover have "x + 1 / 2 \<noteq> of_int n" using assms [of "n - 1"] by auto
  ultimately have "of_int (- n) \<le> - x + 1 / 2" "- x + 1 / 2 < of_int (- n) + 1" by simp_all
  then have "\<lfloor>- x + 1 / 2\<rfloor> = - n" by (rule floor_unique)
  with True show ?thesis by (simp add: roundHalfAwayFromZero_def Math_round_def n_def)
qed

lemma blend_channel_range:
  fixes bgc fgc \<alpha> :: int
  assumes "0 \<le> bgc" "bgc \<le> 255" "0 \<le> fgc" "fgc \<le> 255" "0 \<le> \<alpha>" "\<alpha> < 255"
  shows "0 \<le> bgc + Math_round (real_of_int (fgc - bgc) * (real_of_int \<alpha> / 255))"
    and "bgc + Math_round (real_of_int (fgc - bgc) * (real_of_int \<alpha> / 255)) \<le> 255"
proof -
  define a where "a = real_of_int \<alpha> / 255"
  define d where "d = fgc - bgc"
  have a: "0 \<le> a" "a \<le> 1" using assms by (simp_all add: a_def)
  have "min 0 d \<le> Math_round (real_of_int d * a) \<and> Math_round (real_of_int d * a) \<le> max 0 d"
  proof (cases "0 \<le> d")
    case True
    then have "0 \<le> real_of_int d * a" using a by simp
    moreover have "real_of_int d * a \<le> real_of_int d * 1"
      using True a by (intro mult_left_mono) simp_all
    ultimately have "0 \<le> \<lfloor>real_of_int d * a + 1 / 2\<rfloor>" "\<lfloor>real_of_int d * a + 1 / 2\<rfloor> \<le> d"
      by linarith+
    with True show ?thesis unfolding Math_round_def by linarith
  next
    case False
    then have "real_of_int d * a \<le> 0" using a by (simp add: mult_le_0_iff)
    moreover have "real_of_int d * 1 \<le> real_of_int d * a"
      using False a by (intro mult_left_mono_neg) simp_all
    ultimately have "d \<le> \<lfloor>real_of_int d * a + 1 / 2\<rfloor>" "\<lfloor>real_of_int d * a + 1 / 2\<rfloor> \<le> 0"
      by linarith+
    with False show ?thesis unfolding Math_round_def by linarith
  qed
  then show "0 \<le> bgc + Math_round (real_of_int (fgc - bgc) * (real_of_int \<alpha> / 255))"
    and "bgc + Math_round (real_of_int (fgc - bgc) * (real_of_int \<alpha> / 255)) \<le> 255"
    using assms unfolding a_def d_def by linarith+
qed

lemma blendChannel_Math_round:
  "blendChannel roundHalfAwayFromZero bgc fgc \<alpha> = blendChannel Math_round bgc fgc \<alpha>"
  "blendChannel roundHalfToEven bgc fgc \<alpha> = blendChannel Math_round bgc fgc \<alpha>"
  unfolding blendChannel_def
  by (simp_all only: Math_round_half_away [OF blend_product_no_tie]
      Math_round_half_even [OF blend_product_no_tie])

lemma blend_translucent_unfold:
  assumes "uint (rgba fg AND 0xFF) < 255"
  shows "blend bg fg =
    \<lparr>css = toCss
        (blendChannel Math_round (byteAt (rgba bg) 24) (byteAt (rgba fg) 24) (uint (rgba fg AND 0xFF)))
        (blendChannel Math_round (byteAt (rgba bg) 16) (byteAt (rgba fg) 16) (uint (rgba fg AND 0xFF)))
        (blendChannel Math_round (byteAt (rgba bg) 8) (byteAt (rgba fg) 8) (uint (rgba fg AND 0xFF))),
     rgba = toRgba
        (blendChannel Math_round (byteAt (rgba bg) 24) (byteAt (rgba fg) 24) (uint (rgba fg AND 0xFF)))
        (blendChannel Math_round (byteAt (rgba bg) 16) (byteAt (rgba fg) 16) (uint (rgba fg AND 0xFF)))
        (blendChannel Math_round (byteAt (rgba bg) 8) (byteAt (rgba fg) 8) (uint (rgba fg AND 0xFF)))
        0xFF\<rparr>"
proof -
  have "real_of_int (uint (rgba fg AND 0xFF)) < 255" using assms by linarith
  then have "real_of_int (uint (rgba fg AND 0xFF)) / 255 \<noteq> 1" by simp
  then show ?thesis by (simp add: blend_def Let_def blendChannel_def)
qed

lemma blendChannel_range:
  assumes "uint ((w :: 32 word) AND 0xFF) < 255"
  shows "0 \<le> blendChannel Math_round (byteAt u i) (byteAt v j) (uint (w AND 0xFF))"
    and "blendChannel Math_round (byteAt u i) (byteAt v j) (uint (w AND 0xFF)) \<le> 255"
  unfolding blendChannel_def
  using byteAt_range [of u i] byteAt_range [of v j] uint_and_255_range [of w] assms
  by (simp_all only: blend_channel_range)

section \<open>Hexadecimal strings\<close>

lemma hexDigit_facts_all:
  "\<forall>d \<in> set [0..<16].
     isLowerHexDigit (hexDigit d) \<and> hexValue (hexDigit d) = Some d
     \<and> \<not> isWhiteSpace (hexDigit d)
     \<and> hexDigit d \<noteq> CHR ''+'' \<and> hexDigit d \<noteq> CHR ''-''
     \<and> hexDigit d \<noteq> CHR ''x'' \<and> hexDigit d \<noteq> CHR ''X''"
  by (simp add: upt_rec hexDigit_def isLowerHexDigit_def hexValue_def isWhiteSpace_def)

lemma hexDigit_facts:
  assumes "d < 16"
  shows "isLowerHexDigit (hexDigit d)" and "hexValue (hexDigit d) = Some d"
    and "isHexDigit (hexDigit d)"
    and "\<not> isWhiteSpace (hexDigit d)"
    and "hexDigit d \<noteq> CHR ''+''" and "hexDigit d \<noteq> CHR ''-''"
    and "hexDigit d \<noteq> CHR ''x''" and "hexDigit d \<noteq> CHR ''X''"
proof -
  from assms have "d \<in> set [0..<16]" by simp
  with hexDigit_facts_all show "isLowerHexDigit (hexDigit d)" and "hexValue (hexDigit d) = Some d"
    and "\<not> isWhiteSpace (hexDigit d)"
    and "hexDigit d \<noteq> CHR ''+''" and "hexDigit d \<noteq> CHR ''-''"
    and "hexDigit d \<noteq> CHR ''x''" and "hexDigit d \<noteq> CHR ''X''"
    by blast+
  then show "isHexDigit (hexDigit d)" by (simp add: isHexDigit_def)
qed

lemma hexDigit_0: "hexDigit 0 = CHR ''0''"
  by (simp add: hexDigit_def)

lemma toHex_one_digit: "n < 16 \<Longrightarrow> toHex n = [hexDigit n]"
  by (subst toHex.simps) simp

lemma toHex_two_digits:
  assumes "16 \<le> n" "n < 256"
  shows "toHex n = [hexDigit (n div 16), hexDigit (n mod 16)]"
proof -
  from assms have "n div 16 < 16" by linarith
  then have "toHex (n div 16) = [hexDigit (n div 16)]" by (rule toHex_one_digit)
  with assms show ?thesis by (subst toHex.simps) simp
qed

lemma toPaddedHex_byte:
  assumes "0 \<le> c" "c \<le> 255"
  shows "toPaddedHex c = [hexDigit (nat c div 16), hexDigit (nat c mod 16)]"
proof (cases "nat c < 16")
  case True
  with assms show ?thesis
    by (simp add: toPaddedHex_def toString16_def toHex_one_digit hexDigit_0)
next
  case False
  with assms have "16 \<le> nat c" "nat c < 256" by linarith+
  then have "toHex (nat c) = [hexDigit (nat c div 16), hexDigit (nat c mod 16)]"
    by (rule toHex_two_digits)
  with assms show ?thesis by (simp add: toPaddedHex_def toString16_def)
qed

lemma parseInt16_six_digits:
  assumes "d1 < 16" "d2 < 16" "d3 < 16" "d4 < 16" "d5 < 16" "d6 < 16"
  shows "parseInt16 [hexDigit d1, hexDigit d2, hexDigit d3, hexDigit d4, hexDigit d5, hexDigit d6]
    = Some (int (16 * (16 * (16 * (16 * (16 * d1 + d2) + d3) + d4) + d5) + d6))"
  using assms by (simp add: parseInt16_def hexNumber_def hexDigit_facts Let_def)

lemma bytes_sum_or:
  fixes r g b :: int
  assumes "0 \<le> g" "g \<le> 255" "0 \<le> b" "b \<le> 255"
  shows "r * 65536 + g * 256 + b = push_bit 16 r OR push_bit 8 g OR b"
proof -
  have t: "take_bit 8 g = g" "take_bit 8 b = b"
    using assms by (simp_all add: take_bit_int_eq_self)
  have "r * 65536 + g * 256 + b = take_bit 8 b + push_bit 8 (take_bit 8 g + push_bit 8 r)"
    unfolding t by (simp add: push_bit_eq_mult)
  also have "\<dots> = concat_bit 8 b (concat_bit 8 g r)"
    by (simp only: concat_bit_eq)
  also have "\<dots> = take_bit 8 b OR push_bit 8 (take_bit 8 g OR push_bit 8 r)"
    by (simp only: concat_bit_def)
  also have "\<dots> = push_bit 16 r OR push_bit 8 g OR b"
    unfolding t by (simp add: push_bit_or push_bit_push_bit ac_simps)
  finally show ?thesis .
qed

lemma packed_bytes:
  assumes "0 \<le> g" "g \<le> 255" "0 \<le> b" "b \<le> 255"
  shows "push_bit 8 (word_of_int (r * 65536 + g * 256 + b) :: 32 word) OR 0xFF = toRgba r g b 0xFF"
proof -
  have "(0xFF :: 32 word) = mask 8" by (simp add: mask_eq_exp_minus_1)
  then show ?thesis
    unfolding bytes_sum_or [OF assms] toRgba_def word_255_mask
    by (auto simp: bit_eq_iff bit_simps)
qed

lemma toCss_byte:
  assumes "0 \<le> r" "r \<le> 255" "0 \<le> g" "g \<le> 255" "0 \<le> b" "b \<le> 255"
  shows "toCss r g b = [CHR ''#'', hexDigit (nat r div 16), hexDigit (nat r mod 16),
    hexDigit (nat g div 16), hexDigit (nat g mod 16),
    hexDigit (nat b div 16), hexDigit (nat b mod 16)]"
  using assms by (simp add: toCss_def toPaddedHex_byte)

lemma byte_digits:
  assumes "0 \<le> c" "c \<le> 255"
  shows "nat c div 16 < 16" and "nat c mod 16 < 16"
  using assms by simp_all

lemma fromCss_toCss:
  assumes "0 \<le> r" "r \<le> 255" "0 \<le> g" "g \<le> 255" "0 \<le> b" "b \<le> 255"
  shows "fromCss (toCss r g b) = \<lparr>css = toCss r g b, rgba = toRgba r g b 0xFF\<rparr>"
proof -
  note d = byte_digits [OF assms(1,2)] byte_digits [OF assms(3,4)] byte_digits [OF assms(5,6)]
  have "int (16 * (16 * (16 * (16 * (16 * (nat r div 16) + nat r mod 16) + nat g div 16)
      + nat g mod 16) + nat b div 16) + nat b mod 16) = r * 65536 + g * 256 + b"
    using assms by simp
  then have "parseInt16 (drop 1 (toCss r g b)) = Some (r * 65536 + g * 256 + b)"
    unfolding toCss_byte [OF assms] using parseInt16_six_digits [OF d] by simp
  then show ?thesis
    unfolding fromCss_def toInt32_def
    by (simp only: option.case packed_bytes [OF assms(3-6)])
qed

section \<open>The order of the luminance arguments\<close>

lemma rgbRelativeLuminance2_canonical:
  "rgbRelativeLuminance2 r g b = canonicalLuminance r g b"
  by (simp add: rgbRelativeLuminance2_def canonicalLuminance_def linearChannel_def Let_def)

lemma rgbRelativeLuminance2_swapped:
  "rgbRelativeLuminance2 r b g = swappedLuminance r g b"
  by (simp add: rgbRelativeLuminance2_def swappedLuminance_def linearChannel_def Let_def)

lemma reduceLoop_step:
  "cr < ratio \<and> (fgR > 0 \<or> fgG > 0 \<or> fgB > 0) \<Longrightarrow>
   reduceLoop bgR bgG bgB ratio fgR fgG fgB cr =
     (let fgR' = fgR - max 0 \<lceil>real_of_int fgR * 0.1\<rceil>;
          fgG' = fgG - max 0 \<lceil>real_of_int fgG * 0.1\<rceil>;
          fgB' = fgB - max 0 \<lceil>real_of_int fgB * 0.1\<rceil>
      in reduceLoop bgR bgG bgB ratio fgR' fgG' fgB'
           (contrastRatio (rgbRelativeLuminance2 fgR' fgB' fgG')
              (rgbRelativeLuminance2 bgR bgG bgB)))"
  by (subst reduceLoop.simps) (simp only: Let_def simp_thms if_True)

lemma increaseLoop_step:
  "cr < ratio \<and> (fgR < 255 \<or> fgG < 255 \<or> fgB < 255) \<Longrightarrow>
   increaseLoop bgR bgG bgB ratio fgR fgG fgB cr =
     (let fgR' = min 255 (fgR + \<lfloor>real_of_int (255 - fgR) * 0.1\<rfloor>);
          fgG' = min 255 (fgG + \<lfloor>real_of_int (255 - fgG) * 0.1\<rfloor>);
          fgB' = min 255 (fgB + \<lfloor>real_of_int (255 - fgB) * 0.1\<rfloor>)
      in increaseLoop bgR bgG bgB ratio fgR' fgG' fgB'
           (contrastRatio (rgbRelativeLuminance2 fgR' fgB' fgG')
              (rgbRelativeLuminance2 bgR bgG bgB)))"
  by (subst increaseLoop.simps) (simp only: Let_def simp_thms if_True)

lemma luminance_small:
  "rgbRelativeLuminance2 0 0 10 = 361 / 1647300"
  "rgbRelativeLuminance2 0 10 0 = 0.7152 * (10 / 255 / 12.92)"
  "rgbRelativeLuminance2 0 10 10 = 0.7874 * (10 / 255 / 12.92)"
  "rgbRelativeLuminance2 0 0 9 = 0.0722 * (9 / 255 / 12.92)"
  by (simp_all add: rgbRelativeLuminance2_def)

section \<open>The loop of \<^verbatim>\<open>increaseLuminance\<close>, where it ends\<close>

text \<open>
  If the test of the loop holds at the channels reached after \<open>j\<close> rounds, for every
  \<open>j\<close> below \<open>k\<close>, and fails at the channels reached after \<open>k\<close> rounds, the loop
  returns the channels reached after \<open>k\<close> rounds.
\<close>

lemma increaseLoop_rounds:
  assumes "\<And>j. j < k \<Longrightarrow> increaseGuard (bgR, bgG, bgB) ratio ((increaseStep ^^ j) (fgR, fgG, fgB))"
    and "\<not> increaseGuard (bgR, bgG, bgB) ratio ((increaseStep ^^ k) (fgR, fgG, fgB))"
  shows "increaseLoop bgR bgG bgB ratio fgR fgG fgB
      (contrastRatio (rgbRelativeLuminance2 fgR fgB fgG) (rgbRelativeLuminance2 bgR bgG bgB))
    = Some ((increaseStep ^^ k) (fgR, fgG, fgB))"
  using assms
proof (induction k arbitrary: fgR fgG fgB)
  case 0
  then show ?case by (simp add: increaseGuard_def increaseLoop_stop)
next
  case (Suc k)
  define fgR' where "fgR' = min 255 (fgR + \<lfloor>real_of_int (255 - fgR) * 0.1\<rfloor>)"
  define fgG' where "fgG' = min 255 (fgG + \<lfloor>real_of_int (255 - fgG) * 0.1\<rfloor>)"
  define fgB' where "fgB' = min 255 (fgB + \<lfloor>real_of_int (255 - fgB) * 0.1\<rfloor>)"
  have step: "increaseStep (fgR, fgG, fgB) = (fgR', fgG', fgB')"
    by (simp add: increaseStep_def fgR'_def fgG'_def fgB'_def)
  have shift: "(increaseStep ^^ Suc j) (fgR, fgG, fgB) = (increaseStep ^^ j) (fgR', fgG', fgB')" for j
    by (simp only: funpow_Suc_right o_apply step)
  from Suc.prems(1) [of 0]
  have g: "contrastRatio (rgbRelativeLuminance2 fgR fgB fgG) (rgbRelativeLuminance2 bgR bgG bgB) < ratio
      \<and> (fgR < 255 \<or> fgG < 255 \<or> fgB < 255)"
    by (simp add: increaseGuard_def)
  have "increaseLoop bgR bgG bgB ratio fgR' fgG' fgB'
      (contrastRatio (rgbRelativeLuminance2 fgR' fgB' fgG') (rgbRelativeLuminance2 bgR bgG bgB))
    = Some ((increaseStep ^^ k) (fgR', fgG', fgB'))"
  proof (rule Suc.IH)
    fix j assume "j < k"
    then have "Suc j < Suc k" by simp
    from Suc.prems(1) [OF this]
    show "increaseGuard (bgR, bgG, bgB) ratio ((increaseStep ^^ j) (fgR', fgG', fgB'))"
      unfolding shift .
  next
    show "\<not> increaseGuard (bgR, bgG, bgB) ratio ((increaseStep ^^ k) (fgR', fgG', fgB'))"
      using Suc.prems(2) unfolding shift .
  qed
  then show ?case
    unfolding shift increaseLoop_step [OF g] Let_def fgR'_def fgG'_def fgB'_def .
qed

lemma luminance_25_lower: "1 / 400 \<le> rgbRelativeLuminance2 25 25 25"
proof -
  let ?x = "((25 / 255 + 0.055) / 1.055 :: real)"
  have x: "0 < ?x" "?x \<le> 1" by simp_all
  have "?x powr 3 \<le> ?x powr 2.4" using x by (intro powr_mono') simp_all
  moreover have "?x powr 3 = ?x ^ 3" using x(1) by (simp only: powr_numeral)
  moreover have "1 / 400 \<le> ?x ^ 3" by (simp add: power3_eq_cube)
  ultimately have "1 / 400 \<le> ?x powr 2.4" by linarith
  then have "1 / 400 \<le> ?x powr 2.4 * 0.2126 + ?x powr 2.4 * 0.7152 + ?x powr 2.4 * 0.0722"
    by simp
  then show ?thesis by (simp add: rgbRelativeLuminance2_def)
qed

lemma toCss_191919: "toCss 25 25 25 = ''#191919''"
  by (simp add: toCss_def toPaddedHex_def toString16_def toHex.simps hexDigit_def)

section \<open>The claims\<close>

text \<open>
  C8. For non-negative luminances \<open>l1\<close> and \<open>l2\<close>, \<open>contrastRatio l1 l2\<close> is
  \<open>(max l1 l2 + 0.05) / (min l1 l2 + 0.05)\<close>; it is symmetric, it is 1 on equal
  arguments, and \<open>contrastRatio 0 1\<close> is 21.
\<close>

theorem contrastRatio_formula:
  assumes "0 \<le> l1" "0 \<le> l2"
  shows "contrastRatio l1 l2 = (max l1 l2 + 0.05) / (min l1 l2 + 0.05)
    \<and> contrastRatio l1 l2 = contrastRatio l2 l1
    \<and> contrastRatio l1 l1 = 1
    \<and> contrastRatio 0 1 = 21"
proof -
  have "contrastRatio l1 l2 = (max l1 l2 + 0.05) / (min l1 l2 + 0.05)"
    by (simp add: contrastRatio_def max_def min_def)
  moreover have "contrastRatio l1 l2 = contrastRatio l2 l1"
    by (simp add: contrastRatio_def)
  moreover have "contrastRatio l1 l1 = 1"
    using assms(1) by (simp add: contrastRatio_def)
  moreover have "contrastRatio 0 1 = 21"
    by (simp add: contrastRatio_def)
  ultimately show ?thesis by blast
qed

theorem contrastRatio_formula_witness:
  "(0::real) \<le> 1 / 5 \<and> (0::real) \<le> 7 / 10
    \<and> contrastRatio (1 / 5) (7 / 10) = 3
    \<and> contrastRatio (7 / 10) (1 / 5) = 3
    \<and> contrastRatio (1 / 5) (1 / 5) = 1"
  using contrastRatio_formula [of "1 / 5" "7 / 10"] by simp

text \<open>
  C7. When the alpha byte of the foreground is 255, \<open>blend\<close> returns the foreground:
  the same css string and the same packed value, whatever the background.
\<close>

theorem blend_opaque_foreground:
  assumes "uint (rgba fg AND 0xFF) = 255"
  shows "blend bg fg = fg \<and> css (blend bg fg) = css fg \<and> rgba (blend bg fg) = rgba fg"
  using assms by (simp add: blend_def)

theorem blend_opaque_foreground_witness:
  "uint (rgba \<lparr>css = ''#102030'', rgba = 0x102030FF\<rparr> AND 0xFF) = 255
    \<and> blend \<lparr>css = ''#ffffff'', rgba = 0xFFFFFF80\<rparr> \<lparr>css = ''#102030'', rgba = 0x102030FF\<rparr>
       = \<lparr>css = ''#102030'', rgba = 0x102030FF\<rparr>"
  using blend_opaque_foreground [of "\<lparr>css = ''#102030'', rgba = 0x102030FF\<rparr>"
      "\<lparr>css = ''#ffffff'', rgba = 0xFFFFFF80\<rparr>"]
  by simp

text \<open>
  C10. \<open>ensureContrastRatio\<close>, \<open>reduceLuminance\<close> and \<open>increaseLuminance\<close> read
  only the packed values of their colours: two runs on backgrounds of equal \<open>rgba\<close> and
  foregrounds of equal \<open>rgba\<close> give the same result, whatever the css strings are.
\<close>

theorem enforcement_ignores_css:
  assumes "rgba bg = rgba bg'" "rgba fg = rgba fg'"
  shows "ensureContrastRatio bg fg ratio = ensureContrastRatio bg' fg' ratio
    \<and> reduceLuminance bg fg ratio = reduceLuminance bg' fg' ratio
    \<and> increaseLuminance bg fg ratio = increaseLuminance bg' fg' ratio"
proof -
  have r: "reduceLuminance bg fg ratio = reduceLuminance bg' fg' ratio"
    by (simp only: reduceLuminance_def assms)
  have i: "increaseLuminance bg fg ratio = increaseLuminance bg' fg' ratio"
    by (simp only: increaseLuminance_def assms)
  have "ensureContrastRatio bg fg ratio = ensureContrastRatio bg' fg' ratio"
    by (simp only: ensureContrastRatio_def assms r i)
  with r i show ?thesis by blast
qed

theorem enforcement_ignores_css_witness:
  "rgba \<lparr>css = ''#000000'', rgba = 0x000000FF\<rparr> = rgba \<lparr>css = ''black'', rgba = 0x000000FF\<rparr>
    \<and> rgba \<lparr>css = ''#ffffff'', rgba = 0xFFFFFFFF\<rparr> = rgba \<lparr>css = ''#123456'', rgba = 0xFFFFFFFF\<rparr>
    \<and> ensureContrastRatio \<lparr>css = ''#000000'', rgba = 0x000000FF\<rparr>
          \<lparr>css = ''#ffffff'', rgba = 0xFFFFFFFF\<rparr> 3
        = ensureContrastRatio \<lparr>css = ''black'', rgba = 0x000000FF\<rparr>
          \<lparr>css = ''#123456'', rgba = 0xFFFFFFFF\<rparr> 3"
  using enforcement_ignores_css [of "\<lparr>css = ''#000000'', rgba = 0x000000FF\<rparr>"
      "\<lparr>css = ''black'', rgba = 0x000000FF\<rparr>" "\<lparr>css = ''#ffffff'', rgba = 0xFFFFFFFF\<rparr>"
      "\<lparr>css = ''#123456'', rgba = 0xFFFFFFFF\<rparr>" 3]
  by simp

text \<open>
  C1. \<open>ensureContrastRatio bg fg ratio\<close> returns \<^verbatim>\<open>undefined\<close> (\<open>Some None\<close>) exactly
  when the contrast ratio of the luminances of \<open>bg\<close> and \<open>fg\<close>, taken on the packed
  values shifted right by 8, is at least \<open>ratio\<close>. Otherwise its result is that of
  \<open>reduceLuminance\<close> when the foreground's luminance is strictly below the background's,
  and that of \<open>increaseLuminance\<close> if not.
\<close>

theorem ensureContrastRatio_decision:
  "(ensureContrastRatio bg fg ratio = Some None
      \<longleftrightarrow> ratio \<le> contrastRatio (rgbRelativeLuminance (signed_drop_bit 8 (rgba bg)))
                  (rgbRelativeLuminance (signed_drop_bit 8 (rgba fg))))
    \<and> (contrastRatio (rgbRelativeLuminance (signed_drop_bit 8 (rgba bg)))
          (rgbRelativeLuminance (signed_drop_bit 8 (rgba fg))) < ratio
        \<longrightarrow> ensureContrastRatio bg fg ratio
            = (if rgbRelativeLuminance (signed_drop_bit 8 (rgba fg))
                  < rgbRelativeLuminance (signed_drop_bit 8 (rgba bg))
               then Some (Some (reduceLuminance bg fg ratio))
               else map_option Some (increaseLuminance bg fg ratio)))"
  by (auto simp: ensureContrastRatio_def Let_def)

theorem ensureContrastRatio_decision_witness:
  "contrastRatio (rgbRelativeLuminance (signed_drop_bit 8 (rgba \<lparr>css = ''#ffffff'', rgba = 0xFFFFFFFF\<rparr>)))
      (rgbRelativeLuminance (signed_drop_bit 8 (rgba \<lparr>css = ''#000000'', rgba = 0x000000FF\<rparr>))) < 25
    \<and> ensureContrastRatio \<lparr>css = ''#ffffff'', rgba = 0xFFFFFFFF\<rparr>
          \<lparr>css = ''#000000'', rgba = 0x000000FF\<rparr> 25
        = Some (Some \<lparr>css = ''#000000'', rgba = 0x000000FF\<rparr>)"
proof -
  have red: "reduceLuminance \<lparr>css = ''#ffffff'', rgba = 0xFFFFFFFF\<rparr>
      \<lparr>css = ''#000000'', rgba = 0x000000FF\<rparr> 25 = \<lparr>css = ''#000000'', rgba = 0x000000FF\<rparr>"
    by (simp add: reduceLuminance_def byteAt_def reduceLoop_stop toCss_black toRgba_def)
  show ?thesis
    using ensureContrastRatio_decision [of "\<lparr>css = ''#ffffff'', rgba = 0xFFFFFFFF\<rparr>"
        "\<lparr>css = ''#000000'', rgba = 0x000000FF\<rparr>" 25]
    by (simp add: rgbRelativeLuminance_def byteAt_def luminance_white luminance_black red
        contrastRatio_def)
qed

text \<open>
  C2. The claim is that both loops end within 256 rounds. The loop of
  \<open>increaseLuminance\<close> does not: on black, the foreground \<^verbatim>\<open>#fafafa\<close> has contrast
  below 21, and a round leaves a channel at 250 where it is
  (\<^verbatim>\<open>Math.floor((255 - 250) * 0.1)\<close> is 0), so the call never returns.
\<close>

theorem increaseLuminance_near_white_never_returns:
  "increaseLuminance \<lparr>css = ''#000000'', rgba = 0x000000FF\<rparr>
     \<lparr>css = ''#fafafa'', rgba = 0xFAFAFAFF\<rparr> 21 = None"
proof -
  have bg0: "rgbRelativeLuminance2 0 0 0 = 0" by (simp add: rgbRelativeLuminance2_def)
  have cr: "contrastRatio (rgbRelativeLuminance2 250 250 250) (rgbRelativeLuminance2 0 0 0) < 21"
    using luminance_250_below_1 rgbRelativeLuminance2_range(1) [of 250 250 250]
    by (simp add: bg0 contrastRatio_def)
  have "increaseLoop 0 0 0 21 250 250 250
      (contrastRatio (rgbRelativeLuminance2 250 250 250) (rgbRelativeLuminance2 0 0 0)) = None"
  proof (cases "increaseLoop 0 0 0 21 250 250 250
      (contrastRatio (rgbRelativeLuminance2 250 250 250) (rgbRelativeLuminance2 0 0 0))")
    case None
    then show ?thesis .
  next
    case (Some y)
    from increaseLoop_stuck_aux [OF Some] cr show ?thesis by simp
  qed
  then show ?thesis by (simp add: increaseLuminance_def byteAt_def)
qed

text \<open>
  C3. The claim is that \<open>ensureContrastRatio\<close> with a foreground no darker than the
  background and the target 25 returns white. It takes the path of
  \<open>increaseLuminance\<close>, whose loop then never ends unless the foreground is white
  already: here for grey on black.
\<close>

theorem ensureContrastRatio_grey_on_black_never_returns:
  "ensureContrastRatio \<lparr>css = ''#000000'', rgba = 0x000000FF\<rparr>
     \<lparr>css = ''#808080'', rgba = 0x808080FF\<rparr> 25 = None"
proof (rule ensureContrastRatio_unmeetable)
  show "(21::real) < 25" by simp
  have "rgbRelativeLuminance (signed_drop_bit 8 (rgba \<lparr>css = ''#000000'', rgba = 0x000000FF\<rparr>)) = 0"
    by (simp add: rgbRelativeLuminance_def rgbRelativeLuminance2_def byteAt_def)
  moreover have "0 \<le> rgbRelativeLuminance (signed_drop_bit 8 (rgba \<lparr>css = ''#808080'', rgba = 0x808080FF\<rparr>))"
    unfolding rgbRelativeLuminance_shifted by (rule rgbRelativeLuminance2_byteAt_range)
  ultimately show "\<not> rgbRelativeLuminance (signed_drop_bit 8 (rgba \<lparr>css = ''#808080'', rgba = 0x808080FF\<rparr>))
      < rgbRelativeLuminance (signed_drop_bit 8 (rgba \<lparr>css = ''#000000'', rgba = 0x000000FF\<rparr>))"
    by simp
  show "byteAt (rgba \<lparr>css = ''#808080'', rgba = 0x808080FF\<rparr>) 24 < 255
      \<or> byteAt (rgba \<lparr>css = ''#808080'', rgba = 0x808080FF\<rparr>) 16 < 255
      \<or> byteAt (rgba \<lparr>css = ''#808080'', rgba = 0x808080FF\<rparr>) 8 < 255"
    by (simp add: byteAt_def)
qed

text \<open>
  C9. The colour that \<open>reduceLuminance\<close> returns has the alpha byte 255. So has the
  colour that \<open>increaseLuminance\<close> returns, and it does return one, built from the
  channels after \<open>k\<close> rounds, whenever the test of its loop holds before each of the
  first \<open>k\<close> rounds and fails after them. The alpha byte of the foreground is never read.
\<close>

theorem adjusted_colour_is_opaque:
  "uint (rgba (reduceLuminance bg fg ratio) AND 0xFF) = 255
    \<and> (\<forall>c. increaseLuminance bg fg ratio = Some c \<longrightarrow> uint (rgba c AND 0xFF) = 255)
    \<and> ((\<forall>j<k. increaseGuard (byteAt (rgba bg) 24, byteAt (rgba bg) 16, byteAt (rgba bg) 8) ratio
              ((increaseStep ^^ j) (byteAt (rgba fg) 24, byteAt (rgba fg) 16, byteAt (rgba fg) 8)))
          \<and> \<not> increaseGuard (byteAt (rgba bg) 24, byteAt (rgba bg) 16, byteAt (rgba bg) 8) ratio
              ((increaseStep ^^ k) (byteAt (rgba fg) 24, byteAt (rgba fg) 16, byteAt (rgba fg) 8))
        \<longrightarrow> (case (increaseStep ^^ k) (byteAt (rgba fg) 24, byteAt (rgba fg) 16, byteAt (rgba fg) 8) of
              (r, g, b) \<Rightarrow>
                increaseLuminance bg fg ratio = Some \<lparr>css = toCss r g b, rgba = toRgba r g b 0xFF\<rparr>
                \<and> uint (toRgba r g b 0xFF AND 0xFF) = 255))"
proof -
  have red: "uint (rgba (reduceLuminance bg fg ratio) AND 0xFF) = 255"
    by (simp add: reduceLuminance_def Let_def toRgba_alpha split: prod.split)
  have inc: "uint (rgba c AND 0xFF) = 255" if "increaseLuminance bg fg ratio = Some c" for c
    using that
    by (auto simp: increaseLuminance_def Let_def toRgba_alpha split: option.splits prod.splits)
  have ends: "case (increaseStep ^^ k) (byteAt (rgba fg) 24, byteAt (rgba fg) 16, byteAt (rgba fg) 8) of
      (r, g, b) \<Rightarrow>
        increaseLuminance bg fg ratio = Some \<lparr>css = toCss r g b, rgba = toRgba r g b 0xFF\<rparr>
        \<and> uint (toRgba r g b 0xFF AND 0xFF) = 255"
    if run: "\<forall>j<k. increaseGuard (byteAt (rgba bg) 24, byteAt (rgba bg) 16, byteAt (rgba bg) 8) ratio
        ((increaseStep ^^ j) (byteAt (rgba fg) 24, byteAt (rgba fg) 16, byteAt (rgba fg) 8))"
      and stop: "\<not> increaseGuard (byteAt (rgba bg) 24, byteAt (rgba bg) 16, byteAt (rgba bg) 8) ratio
        ((increaseStep ^^ k) (byteAt (rgba fg) 24, byteAt (rgba fg) 16, byteAt (rgba fg) 8))"
  proof -
    from run have "\<And>j. j < k \<Longrightarrow>
        increaseGuard (byteAt (rgba bg) 24, byteAt (rgba bg) 16, byteAt (rgba bg) 8) ratio
          ((increaseStep ^^ j) (byteAt (rgba fg) 24, byteAt (rgba fg) 16, byteAt (rgba fg) 8))"
      by blast
    from increaseLoop_rounds [OF this stop] show ?thesis
      by (simp add: increaseLuminance_def Let_def toRgba_alpha split: prod.split)
  qed
  show ?thesis
  proof (intro conjI allI impI)
    show "uint (rgba (reduceLuminance bg fg ratio) AND 0xFF) = 255" by (rule red)
  next
    fix c assume "increaseLuminance bg fg ratio = Some c"
    then show "uint (rgba c AND 0xFF) = 255" by (rule inc)
  next
    assume "(\<forall>j<k. increaseGuard (byteAt (rgba bg) 24, byteAt (rgba bg) 16, byteAt (rgba bg) 8) ratio
          ((increaseStep ^^ j) (byteAt (rgba fg) 24, byteAt (rgba fg) 16, byteAt (rgba fg) 8)))
      \<and> \<not> increaseGuard (byteAt (rgba bg) 24, byteAt (rgba bg) 16, byteAt (rgba bg) 8) ratio
          ((increaseStep ^^ k) (byteAt (rgba fg) 24, byteAt (rgba fg) 16, byteAt (rgba fg) 8))"
    then show "case (increaseStep ^^ k) (byteAt (rgba fg) 24, byteAt (rgba fg) 16, byteAt (rgba fg) 8) of
        (r, g, b) \<Rightarrow>
          increaseLuminance bg fg ratio = Some \<lparr>css = toCss r g b, rgba = toRgba r g b 0xFF\<rparr>
          \<and> uint (toRgba r g b 0xFF AND 0xFF) = 255"
      by (intro ends) (erule conjunct1, erule conjunct2)
  qed
qed

theorem adjusted_colour_is_opaque_witness:
  "increaseGuard (0, 0, 0) (21 / 20) (0, 0, 0)
    \<and> increaseStep (0, 0, 0) = (25, 25, 25)
    \<and> \<not> increaseGuard (0, 0, 0) (21 / 20) (25, 25, 25)
    \<and> uint (rgba \<lparr>css = ''#000000'', rgba = 0x00000080\<rparr> AND 0xFF) = 128
    \<and> increaseLuminance \<lparr>css = ''#000000'', rgba = 0x000000FF\<rparr>
        \<lparr>css = ''#000000'', rgba = 0x00000080\<rparr> (21 / 20)
       = Some \<lparr>css = ''#191919'', rgba = 0x191919FF\<rparr>
    \<and> uint (rgba \<lparr>css = ''#191919'', rgba = 0x191919FF\<rparr> AND 0xFF) = 255
    \<and> uint (rgba (reduceLuminance \<lparr>css = ''#000000'', rgba = 0x000000FF\<rparr>
          \<lparr>css = ''#000000'', rgba = 0x00000080\<rparr> (21 / 20)) AND 0xFF) = 255"
proof -
  have g0: "increaseGuard (0, 0, 0) (21 / 20) (0, 0, 0)"
    by (simp add: increaseGuard_def luminance_black contrastRatio_def)
  have st: "increaseStep (0, 0, 0) = (25, 25, 25)"
    by (simp add: increaseStep_def)
  have g1: "\<not> increaseGuard (0, 0, 0) (21 / 20) (25, 25, 25)"
    using luminance_25_lower by (simp add: increaseGuard_def luminance_black contrastRatio_def)
  have rgba: "toRgba 25 25 25 255 = 0x191919FF" by (simp add: toRgba_def)
  show ?thesis
    using adjusted_colour_is_opaque [of "\<lparr>css = ''#000000'', rgba = 0x000000FF\<rparr>"
        "\<lparr>css = ''#000000'', rgba = 0x00000080\<rparr>" "21 / 20" 1]
    by (simp add: byteAt_def g0 st g1 toCss_191919 rgba)
qed

text \<open>
  C5. When the alpha byte \<open>\<alpha>\<close> of the foreground is below 255, each of the R, G, B
  channels of \<open>blend bg fg\<close> is \<open>bg_channel + round ((fg_channel - bg_channel) * (\<alpha> / 255))\<close>,
  for \<open>round\<close> either round-half-away-from-zero or round-half-to-even (the product is
  never half-way between two integers). The value lies between 0 and 255 with no clamping,
  the alpha byte of the result is 255, and with \<open>\<alpha> = 0\<close> the channels are those of the
  background.
\<close>

theorem blend_translucent_foreground:
  assumes "uint (rgba fg AND 0xFF) < 255"
  shows "(let \<alpha> = uint (rgba fg AND 0xFF);
              r = blendChannel roundHalfAwayFromZero (byteAt (rgba bg) 24) (byteAt (rgba fg) 24) \<alpha>;
              g = blendChannel roundHalfAwayFromZero (byteAt (rgba bg) 16) (byteAt (rgba fg) 16) \<alpha>;
              b = blendChannel roundHalfAwayFromZero (byteAt (rgba bg) 8) (byteAt (rgba fg) 8) \<alpha>
          in blend bg fg = \<lparr>css = toCss r g b, rgba = toRgba r g b 0xFF\<rparr>
           \<and> r = blendChannel roundHalfToEven (byteAt (rgba bg) 24) (byteAt (rgba fg) 24) \<alpha>
           \<and> g = blendChannel roundHalfToEven (byteAt (rgba bg) 16) (byteAt (rgba fg) 16) \<alpha>
           \<and> b = blendChannel roundHalfToEven (byteAt (rgba bg) 8) (byteAt (rgba fg) 8) \<alpha>
           \<and> 0 \<le> r \<and> r \<le> 255 \<and> 0 \<le> g \<and> g \<le> 255 \<and> 0 \<le> b \<and> b \<le> 255
           \<and> byteAt (rgba (blend bg fg)) 24 = r
           \<and> byteAt (rgba (blend bg fg)) 16 = g
           \<and> byteAt (rgba (blend bg fg)) 8 = b
           \<and> uint (rgba (blend bg fg) AND 0xFF) = 255
           \<and> (\<alpha> = 0 \<longrightarrow> r = byteAt (rgba bg) 24 \<and> g = byteAt (rgba bg) 16 \<and> b = byteAt (rgba bg) 8))"
proof -
  define \<alpha> where "\<alpha> = uint (rgba fg AND 0xFF)"
  define r where "r = blendChannel Math_round (byteAt (rgba bg) 24) (byteAt (rgba fg) 24) \<alpha>"
  define g where "g = blendChannel Math_round (byteAt (rgba bg) 16) (byteAt (rgba fg) 16) \<alpha>"
  define b where "b = blendChannel Math_round (byteAt (rgba bg) 8) (byteAt (rgba fg) 8) \<alpha>"
  have out: "blend bg fg = \<lparr>css = toCss r g b, rgba = toRgba r g b 0xFF\<rparr>"
    unfolding r_def g_def b_def \<alpha>_def by (rule blend_translucent_unfold [OF assms])
  have rng: "0 \<le> r" "r \<le> 255" "0 \<le> g" "g \<le> 255" "0 \<le> b" "b \<le> 255"
    unfolding r_def g_def b_def \<alpha>_def by (rule blendChannel_range [OF assms])+
  have bytes: "byteAt (rgba (blend bg fg)) 24 = r" "byteAt (rgba (blend bg fg)) 16 = g"
      "byteAt (rgba (blend bg fg)) 8 = b"
    unfolding out using byteAt_toRgba [OF rng] by simp_all
  have alpha: "uint (rgba (blend bg fg) AND 0xFF) = 255"
    unfolding out by (simp add: toRgba_alpha)
  have zero: "r = byteAt (rgba bg) 24 \<and> g = byteAt (rgba bg) 16 \<and> b = byteAt (rgba bg) 8"
    if "\<alpha> = 0"
    unfolding r_def g_def b_def that by (simp add: blendChannel_def Math_round_def)
  show ?thesis
    unfolding Let_def blendChannel_Math_round
    using out rng bytes alpha zero
    unfolding r_def g_def b_def \<alpha>_def by blast
qed

theorem blend_translucent_foreground_witness:
  "uint (rgba \<lparr>css = ''#ffffff'', rgba = 0xFFFFFF80\<rparr> AND 0xFF) < 255
    \<and> blend \<lparr>css = ''#000000'', rgba = 0x000000FF\<rparr> \<lparr>css = ''#ffffff'', rgba = 0xFFFFFF80\<rparr>
        = \<lparr>css = ''#808080'', rgba = 0x808080FF\<rparr>
    \<and> uint (rgba \<lparr>css = ''#ffffff'', rgba = 0xFFFFFF00\<rparr> AND 0xFF) = 0
    \<and> blend \<lparr>css = ''#102030'', rgba = 0x102030FF\<rparr> \<lparr>css = ''#ffffff'', rgba = 0xFFFFFF00\<rparr>
        = \<lparr>css = ''#102030'', rgba = 0x102030FF\<rparr>"
proof -
  have css: "toCss 128 128 128 = ''#808080''" "toCss 16 32 48 = ''#102030''"
    by (simp_all add: toCss_def toPaddedHex_def toString16_def toHex.simps hexDigit_def)
  have rgba: "toRgba 128 128 128 255 = 0x808080FF" "toRgba 16 32 48 255 = 0x102030FF"
    by (simp_all add: toRgba_def)
  have ch: "blendChannel roundHalfAwayFromZero 0 255 128 = 128"
      "blendChannel roundHalfAwayFromZero 16 255 0 = 16"
      "blendChannel roundHalfAwayFromZero 32 255 0 = 32"
      "blendChannel roundHalfAwayFromZero 48 255 0 = 48"
    by (simp_all add: blendChannel_def roundHalfAwayFromZero_def)
  show ?thesis
    using blend_translucent_foreground [of "\<lparr>css = ''#ffffff'', rgba = 0xFFFFFF80\<rparr>"
        "\<lparr>css = ''#000000'', rgba = 0x000000FF\<rparr>"]
      blend_translucent_foreground [of "\<lparr>css = ''#ffffff'', rgba = 0xFFFFFF00\<rparr>"
        "\<lparr>css = ''#102030'', rgba = 0x102030FF\<rparr>"]
    by (simp add: Let_def byteAt_def ch css rgba)
qed

text \<open>
  C6. For \<open>r\<close>, \<open>g\<close>, \<open>b\<close> between 0 and 255, \<open>toCss r g b\<close> matches
  \<^verbatim>\<open>#[0-9a-f]{6}\<close>, and \<open>fromCss\<close> of it has the R, G, B bytes \<open>r\<close>, \<open>g\<close>,
  \<open>b\<close>, the alpha byte 255 (as \<open>fromCss\<close> of any string \<open>s\<close> has) and the string
  itself as its css field.
\<close>

theorem toCss_fromCss_roundtrip:
  assumes "0 \<le> r" "r \<le> 255" "0 \<le> g" "g \<le> 255" "0 \<le> b" "b \<le> 255"
  shows "matchesHexColour (toCss r g b)
    \<and> byteAt (rgba (fromCss (toCss r g b))) 24 = r
    \<and> byteAt (rgba (fromCss (toCss r g b))) 16 = g
    \<and> byteAt (rgba (fromCss (toCss r g b))) 8 = b
    \<and> uint (rgba (fromCss (toCss r g b)) AND 0xFF) = 255
    \<and> uint (rgba (fromCss s) AND 0xFF) = 255
    \<and> css (fromCss (toCss r g b)) = toCss r g b"
proof -
  note d = byte_digits [OF assms(1,2)] byte_digits [OF assms(3,4)] byte_digits [OF assms(5,6)]
  have m: "matchesHexColour (toCss r g b)"
    unfolding toCss_byte [OF assms] using d by (simp add: matchesHexColour_def hexDigit_facts)
  have a: "uint (rgba (fromCss s) AND 0xFF) = 255" for s
  proof -
    have "(0xFF :: 32 word) = mask 8" by (simp add: mask_eq_exp_minus_1)
    then have "(push_bit 8 w OR 0xFF) AND 0xFF = (0xFF :: 32 word)" for w :: "32 word"
      by (auto simp: bit_eq_iff bit_simps)
    then show ?thesis by (simp add: fromCss_def)
  qed
  show ?thesis
    using m a byteAt_toRgba [OF assms] by (simp add: fromCss_toCss [OF assms] toRgba_alpha)
qed

theorem toCss_fromCss_roundtrip_witness:
  "(0::int) \<le> 18 \<and> (18::int) \<le> 255 \<and> (0::int) \<le> 171 \<and> (171::int) \<le> 255
    \<and> (0::int) \<le> 5 \<and> (5::int) \<le> 255
    \<and> toCss 18 171 5 = ''#12ab05''
    \<and> matchesHexColour ''#12ab05''
    \<and> fromCss ''#12ab05'' = \<lparr>css = ''#12ab05'', rgba = 0x12AB05FF\<rparr>
    \<and> byteAt 0x12AB05FF 24 = 18 \<and> byteAt 0x12AB05FF 16 = 171 \<and> byteAt 0x12AB05FF 8 = 5
    \<and> uint ((0x12AB05FF :: 32 word) AND 0xFF) = 255"
proof -
  have css: "toCss 18 171 5 = ''#12ab05''"
    by (simp add: toCss_def toPaddedHex_def toString16_def toHex.simps hexDigit_def)
  have parsed: "fromCss ''#12ab05'' = \<lparr>css = ''#12ab05'', rgba = 0x12AB05FF\<rparr>"
    by (simp add: fromCss_def parseInt16_def isWhiteSpace_def isHexDigit_def hexValue_def
        hexNumber_def toInt32_def)
  show ?thesis
    using toCss_fromCss_roundtrip [of 18 171 5 "''#12ab05''"]
    by (simp add: css parsed)
qed

text \<open>
  C4, as amended. In \<open>reduceLuminance\<close> and \<open>increaseLuminance\<close> the contrast ratio that
  the loop tests is computed from the swapped luminance of the foreground's channels and
  the canonical luminance of the background's, both before the loop (the initial value of
  \<^verbatim>\<open>cr\<close>) and in every round. \<open>rgbRelativeLuminance2\<close> itself,
  \<open>rgbRelativeLuminance\<close> and the decision of \<open>ensureContrastRatio\<close> use the canonical
  order.
\<close>

theorem luminance_argument_order:
  "reduceLuminance bg fg ratio =
     (case reduceLoop (byteAt (rgba bg) 24) (byteAt (rgba bg) 16) (byteAt (rgba bg) 8) ratio
             (byteAt (rgba fg) 24) (byteAt (rgba fg) 16) (byteAt (rgba fg) 8)
             (contrastRatio
                (swappedLuminance (byteAt (rgba fg) 24) (byteAt (rgba fg) 16) (byteAt (rgba fg) 8))
                (canonicalLuminance (byteAt (rgba bg) 24) (byteAt (rgba bg) 16) (byteAt (rgba bg) 8))) of
        (r, g, b) \<Rightarrow> \<lparr>css = toCss r g b, rgba = toRgba r g b 0xFF\<rparr>)
   \<and> increaseLuminance bg fg ratio =
     (case increaseLoop (byteAt (rgba bg) 24) (byteAt (rgba bg) 16) (byteAt (rgba bg) 8) ratio
             (byteAt (rgba fg) 24) (byteAt (rgba fg) 16) (byteAt (rgba fg) 8)
             (contrastRatio
                (swappedLuminance (byteAt (rgba fg) 24) (byteAt (rgba fg) 16) (byteAt (rgba fg) 8))
                (canonicalLuminance (byteAt (rgba bg) 24) (byteAt (rgba bg) 16) (byteAt (rgba bg) 8))) of
        None \<Rightarrow> None
      | Some (r, g, b) \<Rightarrow> Some \<lparr>css = toCss r g b, rgba = toRgba r g b 0xFF\<rparr>)
   \<and> (cr < ratio \<and> (0 < fgR \<or> 0 < fgG \<or> 0 < fgB) \<longrightarrow>
        reduceLoop bgR bgG bgB ratio fgR fgG fgB cr =
          (let fgR' = fgR - max 0 \<lceil>real_of_int fgR * 0.1\<rceil>;
               fgG' = fgG - max 0 \<lceil>real_of_int fgG * 0.1\<rceil>;
               fgB' = fgB - max 0 \<lceil>real_of_int fgB * 0.1\<rceil>
           in reduceLoop bgR bgG bgB ratio fgR' fgG' fgB'
                (contrastRatio (swappedLuminance fgR' fgG' fgB') (canonicalLuminance bgR bgG bgB))))
   \<and> (cr < ratio \<and> (fgR < 255 \<or> fgG < 255 \<or> fgB < 255) \<longrightarrow>
        increaseLoop bgR bgG bgB ratio fgR fgG fgB cr =
          (let fgR' = min 255 (fgR + \<lfloor>real_of_int (255 - fgR) * 0.1\<rfloor>);
               fgG' = min 255 (fgG + \<lfloor>real_of_int (255 - fgG) * 0.1\<rfloor>);
               fgB' = min 255 (fgB + \<lfloor>real_of_int (255 - fgB) * 0.1\<rfloor>)
           in increaseLoop bgR bgG bgB ratio fgR' fgG' fgB'
                (contrastRatio (swappedLuminance fgR' fgG' fgB') (canonicalLuminance bgR bgG bgB))))
   \<and> rgbRelativeLuminance2 r g b = canonicalLuminance r g b
   \<and> rgbRelativeLuminance (signed_drop_bit 8 w)
        = canonicalLuminance (byteAt w 24) (byteAt w 16) (byteAt w 8)
   \<and> ensureContrastRatio bg fg ratio =
     (let bgL = canonicalLuminance (byteAt (rgba bg) 24) (byteAt (rgba bg) 16) (byteAt (rgba bg) 8);
          fgL = canonicalLuminance (byteAt (rgba fg) 24) (byteAt (rgba fg) 16) (byteAt (rgba fg) 8)
      in if contrastRatio bgL fgL < ratio then
           if fgL < bgL then Some (Some (reduceLuminance bg fg ratio))
           else map_option Some (increaseLuminance bg fg ratio)
         else Some None)"
proof -
  have a: "reduceLuminance bg fg ratio =
     (case reduceLoop (byteAt (rgba bg) 24) (byteAt (rgba bg) 16) (byteAt (rgba bg) 8) ratio
             (byteAt (rgba fg) 24) (byteAt (rgba fg) 16) (byteAt (rgba fg) 8)
             (contrastRatio
                (swappedLuminance (byteAt (rgba fg) 24) (byteAt (rgba fg) 16) (byteAt (rgba fg) 8))
                (canonicalLuminance (byteAt (rgba bg) 24) (byteAt (rgba bg) 16) (byteAt (rgba bg) 8))) of
        (r, g, b) \<Rightarrow> \<lparr>css = toCss r g b, rgba = toRgba r g b 0xFF\<rparr>)"
    unfolding reduceLuminance_def Let_def
    by (simp only: rgbRelativeLuminance2_swapped [symmetric] rgbRelativeLuminance2_canonical [symmetric])
  have b: "increaseLuminance bg fg ratio =
     (case increaseLoop (byteAt (rgba bg) 24) (byteAt (rgba bg) 16) (byteAt (rgba bg) 8) ratio
             (byteAt (rgba fg) 24) (byteAt (rgba fg) 16) (byteAt (rgba fg) 8)
             (contrastRatio
                (swappedLuminance (byteAt (rgba fg) 24) (byteAt (rgba fg) 16) (byteAt (rgba fg) 8))
                (canonicalLuminance (byteAt (rgba bg) 24) (byteAt (rgba bg) 16) (byteAt (rgba bg) 8))) of
        None \<Rightarrow> None
      | Some (r, g, b) \<Rightarrow> Some \<lparr>css = toCss r g b, rgba = toRgba r g b 0xFF\<rparr>)"
    unfolding increaseLuminance_def Let_def
    by (simp only: rgbRelativeLuminance2_swapped [symmetric] rgbRelativeLuminance2_canonical [symmetric])
  have c: "reduceLoop bgR bgG bgB ratio fgR fgG fgB cr =
          (let fgR' = fgR - max 0 \<lceil>real_of_int fgR * 0.1\<rceil>;
               fgG' = fgG - max 0 \<lceil>real_of_int fgG * 0.1\<rceil>;
               fgB' = fgB - max 0 \<lceil>real_of_int fgB * 0.1\<rceil>
           in reduceLoop bgR bgG bgB ratio fgR' fgG' fgB'
                (contrastRatio (swappedLuminance fgR' fgG' fgB') (canonicalLuminance bgR bgG bgB)))"
    if "cr < ratio \<and> (0 < fgR \<or> 0 < fgG \<or> 0 < fgB)"
    using reduceLoop_step [OF that]
    by (simp only: rgbRelativeLuminance2_swapped [symmetric] rgbRelativeLuminance2_canonical [symmetric])
  have d: "increaseLoop bgR bgG bgB ratio fgR fgG fgB cr =
          (let fgR' = min 255 (fgR + \<lfloor>real_of_int (255 - fgR) * 0.1\<rfloor>);
               fgG' = min 255 (fgG + \<lfloor>real_of_int (255 - fgG) * 0.1\<rfloor>);
               fgB' = min 255 (fgB + \<lfloor>real_of_int (255 - fgB) * 0.1\<rfloor>)
           in increaseLoop bgR bgG bgB ratio fgR' fgG' fgB'
                (contrastRatio (swappedLuminance fgR' fgG' fgB') (canonicalLuminance bgR bgG bgB)))"
    if "cr < ratio \<and> (fgR < 255 \<or> fgG < 255 \<or> fgB < 255)"
    using increaseLoop_step [OF that]
    by (simp only: rgbRelativeLuminance2_swapped [symmetric] rgbRelativeLuminance2_canonical [symmetric])
  have e: "rgbRelativeLuminance (signed_drop_bit 8 w)
        = canonicalLuminance (byteAt w 24) (byteAt w 16) (byteAt w 8)" for w
    by (simp only: rgbRelativeLuminance_shifted rgbRelativeLuminance2_canonical [symmetric])
  have f: "ensureContrastRatio bg fg ratio =
     (let bgL = canonicalLuminance (byteAt (rgba bg) 24) (byteAt (rgba bg) 16) (byteAt (rgba bg) 8);
          fgL = canonicalLuminance (byteAt (rgba fg) 24) (byteAt (rgba fg) 16) (byteAt (rgba fg) 8)
      in if contrastRatio bgL fgL < ratio then
           if fgL < bgL then Some (Some (reduceLuminance bg fg ratio))
           else map_option Some (increaseLuminance bg fg ratio)
         else Some None)"
    unfolding ensureContrastRatio_def by (simp only: e Let_def)
  from a b c d e f rgbRelativeLuminance2_canonical show ?thesis by blast
qed

theorem luminance_argument_order_witness:
  "(1::real) < 51 / 50
   \<and> reduceLoop 0 10 10 (51 / 50) 0 10 0 1
       = reduceLoop 0 10 10 (51 / 50) 0 9 0
           (contrastRatio (swappedLuminance 0 9 0) (canonicalLuminance 0 10 10))
   \<and> increaseLoop 0 10 10 (51 / 50) 0 10 0 1
       = increaseLoop 0 10 10 (51 / 50) 25 34 25
           (contrastRatio (swappedLuminance 25 34 25) (canonicalLuminance 0 10 10))"
  using luminance_argument_order [of "\<lparr>css = ''#000a0a'', rgba = 0x000A0AFF\<rparr>"
      "\<lparr>css = ''#000a00'', rgba = 0x000A00FF\<rparr>" "51 / 50" 1 0 10 0 0 10 10 0 10 0 "0x000A00FF"]
  by simp

text \<open>
  C4 as stated has every luminance call outside the loops in the canonical order. The
  call that initialises \<^verbatim>\<open>cr\<close> before the loop is not: for the foreground
  \<^verbatim>\<open>#000a00\<close> on \<^verbatim>\<open>#000a0a\<close> and the target 1.02, \<open>ensureContrastRatio\<close>
  calls \<open>reduceLuminance\<close> (the canonical contrast is about 1.004), whose initial
  contrast, about 1.043 with green and blue swapped, is above the target, so the loop is
  never entered and the foreground comes back unchanged. With a canonical initial value
  the loop would run once and give \<^verbatim>\<open>#000900\<close>.
\<close>

theorem initial_contrast_is_swapped:
  "reduceLuminance \<lparr>css = ''#000a0a'', rgba = 0x000A0AFF\<rparr>
      \<lparr>css = ''#000a00'', rgba = 0x000A00FF\<rparr> (51 / 50)
     = \<lparr>css = ''#000a00'', rgba = 0x000A00FF\<rparr>
   \<and> reduceLuminance_canonical_start \<lparr>css = ''#000a0a'', rgba = 0x000A0AFF\<rparr>
      \<lparr>css = ''#000a00'', rgba = 0x000A00FF\<rparr> (51 / 50)
     = \<lparr>css = ''#000900'', rgba = 0x000900FF\<rparr>
   \<and> ensureContrastRatio \<lparr>css = ''#000a0a'', rgba = 0x000A0AFF\<rparr>
      \<lparr>css = ''#000a00'', rgba = 0x000A00FF\<rparr> (51 / 50)
     = Some (Some \<lparr>css = ''#000a00'', rgba = 0x000A00FF\<rparr>)"
proof -
  have css: "toCss 0 10 0 = ''#000a00''" "toCss 0 9 0 = ''#000900''"
    by (simp_all add: toCss_def toPaddedHex_def toString16_def toHex.simps hexDigit_def)
  have rgba: "toRgba 0 10 0 255 = 0x000A00FF" "toRgba 0 9 0 255 = 0x000900FF"
    by (simp_all add: toRgba_def)
  have c1: "\<not> contrastRatio (rgbRelativeLuminance2 0 0 10) (rgbRelativeLuminance2 0 10 10) < 51 / 50"
    by (simp add: luminance_small contrastRatio_def)
  have c2: "contrastRatio (rgbRelativeLuminance2 0 10 0) (rgbRelativeLuminance2 0 10 10) < 51 / 50"
    by (simp add: luminance_small contrastRatio_def)
  have c3: "\<not> contrastRatio (rgbRelativeLuminance2 0 0 9) (rgbRelativeLuminance2 0 10 10) < 51 / 50"
    by (simp add: luminance_small contrastRatio_def)
  have code: "reduceLoop 0 10 10 (51 / 50) 0 10 0
      (contrastRatio (rgbRelativeLuminance2 0 0 10) (rgbRelativeLuminance2 0 10 10)) = (0, 10, 0)"
    using c1 by (simp add: reduceLoop_stop)
  have "reduceLoop 0 10 10 (51 / 50) 0 10 0
      (contrastRatio (rgbRelativeLuminance2 0 10 0) (rgbRelativeLuminance2 0 10 10))
    = reduceLoop 0 10 10 (51 / 50) 0 9 0
      (contrastRatio (rgbRelativeLuminance2 0 0 9) (rgbRelativeLuminance2 0 10 10))"
    using c2 by (subst reduceLoop_step) simp_all
  also have "\<dots> = (0, 9, 0)" using c3 by (simp add: reduceLoop_stop)
  finally have claimed: "reduceLoop 0 10 10 (51 / 50) 0 10 0
      (contrastRatio (rgbRelativeLuminance2 0 10 0) (rgbRelativeLuminance2 0 10 10)) = (0, 9, 0)" .
  have red: "reduceLuminance \<lparr>css = ''#000a0a'', rgba = 0x000A0AFF\<rparr>
      \<lparr>css = ''#000a00'', rgba = 0x000A00FF\<rparr> (51 / 50)
     = \<lparr>css = ''#000a00'', rgba = 0x000A00FF\<rparr>"
    by (simp add: reduceLuminance_def byteAt_def code css rgba)
  have start: "reduceLuminance_canonical_start \<lparr>css = ''#000a0a'', rgba = 0x000A0AFF\<rparr>
      \<lparr>css = ''#000a00'', rgba = 0x000A00FF\<rparr> (51 / 50)
     = \<lparr>css = ''#000900'', rgba = 0x000900FF\<rparr>"
    by (simp add: reduceLuminance_canonical_start_def byteAt_def claimed css rgba)
  have "ensureContrastRatio \<lparr>css = ''#000a0a'', rgba = 0x000A0AFF\<rparr>
      \<lparr>css = ''#000a00'', rgba = 0x000A00FF\<rparr> (51 / 50)
     = Some (Some (reduceLuminance \<lparr>css = ''#000a0a'', rgba = 0x000A0AFF\<rparr>
      \<lparr>css = ''#000a00'', rgba = 0x000A00FF\<rparr> (51 / 50)))"
    unfolding ensureContrastRatio_def rgbRelativeLuminance_shifted
    by (simp add: byteAt_def luminance_small contrastRatio_def)
  with red start show ?thesis by simp
qed

end
